theory Spec2Isabelle
  imports Main "HOL-Library.Word"
begin

section \<open>The PAM bridge of lib/pam: data model\<close>

text \<open>
  The package exists in two builds. The fallback build (tags \<open>!pam,cgo\<close>) has an empty
  session type and operations that do nothing; the real build (tags \<open>pam,cgo\<close>) drives the
  native PAM library through cgo. Names of the fallback build carry the suffix \<open>_nop\<close>.

  Go's \<open>int\<close> is taken at 64 bits (the amd64 target) and C's \<open>int\<close> at 32 bits; both
  wrap around. Converting \<open>int\<close> to \<open>C.int\<close> keeps the low 32 bits (\<open>ucast\<close>),
  converting \<open>C.int\<close> to \<open>int\<close> extends the sign (\<open>scast\<close>).
\<close>

type_synonym go_int = "64 word"
type_synonym c_int = "32 word"

text \<open>Addresses: \<open>ptr\<close> is a block of the native heap (a result of \<open>malloc\<close>), \<open>ref\<close> is
  a \<open>*PAM\<close> of the Go heap, \<open>pamh_t\<close> is the library's transaction handle.\<close>

type_synonym ptr = nat
type_synonym ref = nat
type_synonym pamh_t = nat

text \<open>Strings are byte strings. Three bytes have names: newline, carriage return and the
  terminator of a C string.\<close>

abbreviation NL :: char where
  "NL \<equiv> CHR 0x0A"

abbreviation CR :: char where
  "CR \<equiv> CHR 0x0D"

abbreviation NUL :: char where
  "NUL \<equiv> CHR 0x00"

datatype error =
    BadParameter string
  | EOF
  | ErrShortWrite
  | Wrap error

datatype panic = NilDereference | SliceOutOfRange

subsection \<open>Streams\<close>

text \<open>
  An \<open>io.Reader\<close> is modelled by what it still delivers: the list of chunks its next
  \<open>Read\<close> calls hand out, one chunk per call that hands out bytes (a chunk longer than
  the buffer offered is handed out in pieces), and the error it reports once the chunks
  are used up (\<open>EOF\<close> for a stream that ends). A stream held in memory is a single chunk, a
  terminal hands out a line per chunk. An \<open>io.Writer\<close> is modelled by the bytes it has accepted and the
  room it has left (\<open>None\<close>: unlimited); a write that does not fit is cut and reports
  \<open>ErrShortWrite\<close>.
\<close>

record reader =
  chunks :: "string list"
  fail_with :: error

text \<open>All the bytes a reader still delivers.\<close>

definition pending :: "reader \<Rightarrow> string" where
  "pending rd = concat (chunks rd)"

record writer =
  written :: string
  room :: "nat option"

definition Write :: "writer \<Rightarrow> string \<Rightarrow> writer \<times> nat \<times> error option" where
  "Write wr bs =
     (case room wr of
        None \<Rightarrow> (wr\<lparr>written := written wr @ bs\<rparr>, length bs, None)
      | Some r \<Rightarrow>
          if length bs \<le> r
          then (wr\<lparr>written := written wr @ bs, room := Some (r - length bs)\<rparr>, length bs, None)
          else (wr\<lparr>written := written wr @ take r bs, room := Some 0\<rparr>, r, Some ErrShortWrite))"

text \<open>
  \<open>bufio.NewReader(rd).ReadString(delim)\<close> on a fresh buffered reader, whose buffer holds
  \<open>defaultBufSize\<close> bytes. \<open>buf\<close> is the buffer, \<open>acc\<close> the full buffers set aside so
  far. The loop looks for \<open>delim\<close> in the buffer; sets a full buffer aside; otherwise
  reads one chunk from the stream into the free part of the buffer. The result is the text
  up to and including the first \<open>delim\<close>, or everything read together with the reader's
  error, and the stream as the reads leave it: what was read into the buffer beyond the
  line goes away with the buffered reader.
\<close>

definition defaultBufSize :: nat where
  "defaultBufSize = 4096"

function ReadString_loop ::
  "reader \<Rightarrow> char \<Rightarrow> string \<Rightarrow> string \<Rightarrow> string \<times> error option \<times> reader" where
  "ReadString_loop rd delim acc buf =
     (if delim \<in> set buf then (acc @ takeWhile (\<lambda>c. c \<noteq> delim) buf @ [delim], None, rd)
      else if defaultBufSize \<le> length buf then ReadString_loop rd delim (acc @ buf) []
      else (case chunks rd of
              [] \<Rightarrow> (acc @ buf, Some (fail_with rd), rd)
            | c # cs \<Rightarrow>
                (let k = defaultBufSize - length buf
                 in if length c \<le> k
                    then ReadString_loop (rd\<lparr>chunks := cs\<rparr>) delim acc (buf @ c)
                    else ReadString_loop (rd\<lparr>chunks := drop k c # cs\<rparr>) delim acc
                           (buf @ take k c))))"
  by pat_completeness auto
termination
  by (relation "measures
        [\<lambda>(rd, delim, acc, buf). sum_list (map (\<lambda>c. Suc (length c)) (chunks rd)),
         \<lambda>(rd, delim, acc, buf). if defaultBufSize \<le> length buf then 1 else 0]")
     (auto simp: defaultBufSize_def)

declare ReadString_loop.simps [simp del]

definition ReadString :: "reader \<Rightarrow> char \<Rightarrow> string \<times> error option \<times> reader" where
  "ReadString rd delim = ReadString_loop rd delim [] []"

subsection \<open>Configuration and session\<close>

text \<open>\<open>Config\<close> of config.go. The three streams are interface values and may be nil.\<close>

record Config =
  Enabled :: bool
  ServiceName :: string
  Username :: string
  Stdin :: "reader option"
  Stdout :: "writer option"
  Stderr :: "writer option"

text \<open>The struct \<open>PAM\<close> of the real build.\<close>

record PAM =
  pamh :: "pamh_t option"
  conv :: "ptr option"
  retval :: c_int
  stdin :: "reader option"
  stdout :: "writer option"
  stderr :: "writer option"
  service_name :: "ptr option"
  user :: "ptr option"
  handlerIndex :: go_int

subsection \<open>The native side\<close>

text \<open>
  What lives in a block of the native heap: a C string or a \<open>struct pam_conv\<close> carrying the
  handler index.
\<close>

datatype nobj = CStr string | PamConv c_int

datatype pam_fn = pam_start | pam_acct_mgmt | pam_open_session | pam_close_session | pam_end

datatype log_msg =
    NoWriteHandler go_int
  | NoReadHandler go_int
  | ReadFailed error

text \<open>
  Everything the package does to the outside is recorded, in order: a call of a PAM
  function with the status it returned, a status-to-text lookup, \<open>malloc\<close>, \<open>free\<close> and an
  error line of the log.
\<close>

datatype event =
    Native pam_fn c_int
  | StrError c_int
  | Malloc ptr
  | Free "ptr option"
  | LogError log_msg

text \<open>
  What lies outside the package is a parameter of the model. The header
  \<open>security/pam_appl.h\<close> and the library behind it: \<open>n_pam_start\<close> gives the status and
  the transaction handle stored through \<open>&p.pamh\<close>; \<open>n_pam_strerror\<close> gives the message,
  \<open>None\<close> for a null pointer; \<open>n_dlopen\<close> is the result of opening the library. And the
  formatter of Go's \<open>fmt\<close> package, which \<open>trace.BadParameter\<close> applies to its message:
  \<open>fmt_verbs\<close> gives what \<open>fmt.Sprintf\<close>, called without operands, prints for a format
  from its first \<open>%\<close> on.
\<close>

record native =
  PAM_SUCCESS :: c_int
  PAM_MAX_MSG_SIZE :: nat
  PAM_MAX_RESP_SIZE :: int
  n_dlopen :: "nat option"
  n_pam_start :: "string \<Rightarrow> string \<Rightarrow> c_int \<times> pamh_t option"
  n_pam_acct_mgmt :: "pamh_t option \<Rightarrow> c_int"
  n_pam_open_session :: "pamh_t option \<Rightarrow> c_int"
  n_pam_close_session :: "pamh_t option \<Rightarrow> c_int"
  n_pam_end :: "pamh_t option \<Rightarrow> c_int \<Rightarrow> c_int"
  n_pam_strerror :: "pamh_t option \<Rightarrow> c_int \<Rightarrow> string option"
  fmt_verbs :: "string \<Rightarrow> string"

text \<open>\<open>fmt.Sprintf(format)\<close> without operands copies the format up to its first \<open>%\<close>;
  a format without \<open>%\<close> is printed as it is.\<close>

definition Sprintf :: "native \<Rightarrow> string \<Rightarrow> string" where
  "Sprintf lib format =
     (case dropWhile (\<lambda>c. c \<noteq> CHR ''%'') format of
        [] \<Rightarrow> format
      | rest \<Rightarrow> takeWhile (\<lambda>c. c \<noteq> CHR ''%'') format @ fmt_verbs lib rest)"

text \<open>\<open>trace.BadParameter(message)\<close>: the error whose text is the formatted message.\<close>

definition trace_BadParameter :: "native \<Rightarrow> string \<Rightarrow> error" where
  "trace_BadParameter lib message = BadParameter (Sprintf lib message)"

text \<open>
  The state of the process: the package-level variables (\<open>handlerCount\<close>, \<open>handlers\<close>,
  \<open>buildHasPAM\<close>, \<open>systemHasPAM\<close>, \<open>pamHandle\<close>), the \<open>PAM\<close> objects of the Go heap, the
  native heap and the record of events. \<open>handlers\<close> holds references, as the Go map holds
  pointers: a session changed through its pointer is changed for the callbacks too.
\<close>

record world =
  handlerCount :: go_int
  handlers :: "go_int \<rightharpoonup> ref"
  buildHasPAM :: bool
  systemHasPAM :: bool
  pamHandle :: "nat option"
  objs :: "ref \<Rightarrow> PAM"
  next_ref :: ref
  nheap :: "ptr \<rightharpoonup> nobj"
  next_ptr :: ptr
  events :: "event list"

definition emit :: "world \<Rightarrow> event \<Rightarrow> world" where
  "emit w e = w\<lparr>events := events w @ [e]\<rparr>"

definition malloc :: "world \<Rightarrow> nobj \<Rightarrow> world \<times> ptr" where
  "malloc w obj =
     (let q = next_ptr w
      in (emit (w\<lparr>nheap := (nheap w)(q \<mapsto> obj), next_ptr := Suc q\<rparr>) (Malloc q), q))"

text \<open>\<open>C.free\<close>; freeing a null pointer does nothing to the heap.\<close>

definition free :: "world \<Rightarrow> ptr option \<Rightarrow> world" where
  "free w q =
     emit (case q of None \<Rightarrow> w | Some a \<Rightarrow> w\<lparr>nheap := (nheap w)(a := None)\<rparr>) (Free q)"

text \<open>\<open>C.CString\<close>: a copy of the string in a fresh block.\<close>

definition CString :: "world \<Rightarrow> string \<Rightarrow> world \<times> ptr" where
  "CString w s = malloc w (CStr s)"

text \<open>Modelled from the spec: \<open>make_pam_conv\<close> is a C function of the package that is not
  among the sources. It allocates the conversation descriptor on the native heap and embeds
  the handler index in it.\<close>

definition make_pam_conv :: "world \<Rightarrow> c_int \<Rightarrow> world \<times> ptr" where
  "make_pam_conv w i = malloc w (PamConv i)"

section \<open>The fallback build (pam\_nop.go)\<close>

datatype PAM_nop = PAM_nop

definition buildHasPAM_nop :: bool where
  "buildHasPAM_nop = False"

definition systemHasPAM_nop :: bool where
  "systemHasPAM_nop = False"

definition Open_nop :: "Config option \<Rightarrow> PAM_nop option \<times> error option" where
  "Open_nop config = (Some PAM_nop, None)"

definition Close_nop :: "PAM_nop \<Rightarrow> error option" where
  "Close_nop p = None"

definition BuildHasPAM_nop :: bool where
  "BuildHasPAM_nop = buildHasPAM_nop"

definition SystemHasPAM_nop :: bool where
  "SystemHasPAM_nop = systemHasPAM_nop"

section \<open>The real build (pam.go)\<close>

subsection \<open>The handle registry\<close>

text \<open>The mutex \<open>handlerMu\<close> is held for the whole body of \<open>registerHandler\<close>,
  \<open>unregisterHandler\<close>, \<open>writeCallback\<close> and \<open>readCallback\<close>, which makes each of them one
  atomic step on the state; that is how they are modelled.\<close>

definition registerHandler :: "world \<Rightarrow> ref \<Rightarrow> world \<times> go_int" where
  "registerHandler w p =
     (let w1 = w\<lparr>handlerCount := handlerCount w + 1\<rparr>;
          (w2, cv) = make_pam_conv w1 (ucast (handlerCount w1));
          w3 = w2\<lparr>objs := (objs w2)(p := (objs w2 p)\<lparr>conv := Some cv\<rparr>)\<rparr>;
          w4 = w3\<lparr>handlers := (handlers w3)(handlerCount w3 \<mapsto> p)\<rparr>
      in (w4, handlerCount w4))"

definition unregisterHandler :: "world \<Rightarrow> go_int \<Rightarrow> world" where
  "unregisterHandler w handlerIndex' = w\<lparr>handlers := (handlers w)(handlerIndex' := None)\<rparr>"

subsection \<open>Library loader and capability queries\<close>

text \<open>The zero value of the struct, and the package-level variables as their initialisers
  leave them, before \<open>init\<close> runs.\<close>

definition zero_PAM :: PAM where
  "zero_PAM =
     \<lparr>pamh = None, conv = None, retval = 0, stdin = None, stdout = None, stderr = None,
      service_name = None, user = None, handlerIndex = 0\<rparr>"

definition initial_world :: world where
  "initial_world =
     \<lparr>handlerCount = 0, handlers = Map.empty, buildHasPAM = True, systemHasPAM = False,
      pamHandle = None, objs = (\<lambda>_. zero_PAM), next_ref = 0, nheap = Map.empty,
      next_ptr = 0, events = []\<rparr>"

definition init :: "native \<Rightarrow> world \<Rightarrow> world" where
  "init lib w =
     (let w1 = w\<lparr>pamHandle := n_dlopen lib\<rparr>
      in if pamHandle w1 \<noteq> None then w1\<lparr>systemHasPAM := True\<rparr> else w1)"

definition BuildHasPAM :: "world \<Rightarrow> bool" where
  "BuildHasPAM w = buildHasPAM w"

definition SystemHasPAM :: "world \<Rightarrow> bool" where
  "SystemHasPAM w = systemHasPAM w"

subsection \<open>Stream access of a session\<close>

definition syscall_Stderr :: go_int where
  "syscall_Stderr = 2"

text \<open>\<open>bytes.Replace(s, old, new, -1)\<close> for a pattern \<open>old\<close> of a single byte, which is how
  \<open>writeStream\<close> calls it: every occurrence of the byte is replaced.\<close>

fun Replace :: "string \<Rightarrow> char \<Rightarrow> string \<Rightarrow> string" where
  "Replace [] old new = []"
| "Replace (c # cs) old new = (if c = old then new @ Replace cs old new else c # Replace cs old new)"

definition writeStream :: "PAM \<Rightarrow> go_int \<Rightarrow> string \<Rightarrow> panic + (PAM \<times> nat \<times> error option)" where
  "writeStream p stream s =
     (case (if stream = syscall_Stderr then stderr p else stdout p) of
        None \<Rightarrow> Inl NilDereference
      | Some wr \<Rightarrow>
          (let (wr', n, err) = Write wr (Replace s NL [CR, NL]);
               p' = (if stream = syscall_Stderr then p\<lparr>stderr := Some wr'\<rparr>
                     else p\<lparr>stdout := Some wr'\<rparr>)
           in case err of
                Some e \<Rightarrow> Inr (p', n, Some e)
              | None \<Rightarrow> Inr (p', n, None)))"

text \<open>The flag \<open>echo\<close> is not used. The session comes back with its input as the read
  left it.\<close>

definition readStream :: "PAM \<Rightarrow> bool \<Rightarrow> panic + (PAM \<times> string \<times> error option)" where
  "readStream p echo =
     (case stdin p of
        None \<Rightarrow> Inl NilDereference
      | Some rd \<Rightarrow>
          (case ReadString rd NL of
             (text, Some err, rd') \<Rightarrow> Inr (p\<lparr>stdin := Some rd'\<rparr>, [], Some (Wrap err))
           | (text, None, rd') \<Rightarrow> Inr (p\<lparr>stdin := Some rd'\<rparr>, text, None)))"

subsection \<open>Conversation callbacks\<close>

text \<open>
  The message of \<open>writeCallback\<close> is a pointer into native memory; it is modelled by the
  bytes found from that address on. \<open>strnlen\<close> counts the bytes before the first NUL, at
  most \<open>maxlen\<close>; \<open>C.GoStringN\<close> copies that many bytes.
\<close>

definition strnlen :: "string \<Rightarrow> nat \<Rightarrow> nat" where
  "strnlen s maxlen = min maxlen (length (takeWhile (\<lambda>c. c \<noteq> NUL) s))"

definition GoStringN :: "string \<Rightarrow> nat \<Rightarrow> string" where
  "GoStringN s n = take n s"

definition writeCallback :: "native \<Rightarrow> world \<Rightarrow> c_int \<Rightarrow> c_int \<Rightarrow> string \<Rightarrow> panic + world" where
  "writeCallback lib w index stream s =
     (case handlers w (scast index) of
        None \<Rightarrow> Inr (emit w (LogError (NoWriteHandler (scast index))))
      | Some handle \<Rightarrow>
          (let str = GoStringN s (strnlen s (PAM_MAX_MSG_SIZE lib))
           in case writeStream (objs w handle) (scast stream) str of
                Inl pn \<Rightarrow> Inl pn
              | Inr (p', n, err) \<Rightarrow> Inr (w\<lparr>objs := (objs w)(handle := p')\<rparr>)))"

text \<open>The result is the \<open>char *\<close> handed to the module: \<open>None\<close> for a null pointer, else a
  fresh block holding the answer, which the module releases.\<close>

definition readCallback :: "native \<Rightarrow> world \<Rightarrow> c_int \<Rightarrow> c_int \<Rightarrow> panic + (world \<times> ptr option)" where
  "readCallback lib w index e =
     (case handlers w (scast index) of
        None \<Rightarrow> Inr (emit w (LogError (NoReadHandler (scast index))), None)
      | Some handle \<Rightarrow>
          (let echo = (e = 1)
           in case readStream (objs w handle) echo of
                Inl pn \<Rightarrow> Inl pn
              | Inr (p', s, Some err) \<Rightarrow>
                  Inr (emit (w\<lparr>objs := (objs w)(handle := p')\<rparr>) (LogError (ReadFailed err)),
                       None)
              | Inr (p', s, None) \<Rightarrow>
                  (let w1 = w\<lparr>objs := (objs w)(handle := p')\<rparr>;
                       n = PAM_MAX_RESP_SIZE lib
                   in if int (length s) > n - 1
                      then (if n - 1 < 0 then Inl SliceOutOfRange
                            else (let (w', q) = CString w1 (take (nat (n - 1)) s)
                                  in Inr (w', Some q)))
                      else (let (w', q) = CString w1 s in Inr (w', Some q)))))"

subsection \<open>Open and Close\<close>

definition upd :: "world \<Rightarrow> ref \<Rightarrow> (PAM \<Rightarrow> PAM) \<Rightarrow> world" where
  "upd w p f = w\<lparr>objs := (objs w)(p := f (objs w p))\<rparr>"

definition codeToError :: "native \<Rightarrow> world \<Rightarrow> ref \<Rightarrow> c_int \<Rightarrow> world \<times> error option" where
  "codeToError lib w p returnValue =
     (let err = n_pam_strerror lib (pamh (objs w p)) returnValue;
          w1 = emit w (StrError returnValue)
      in case err of
           Some msg \<Rightarrow> (w1, Some (trace_BadParameter lib msg))
         | None \<Rightarrow> (w1, None))"

definition Open_session :: "native \<Rightarrow> world \<Rightarrow> ref \<Rightarrow> world \<times> ref option \<times> error option" where
  "Open_session lib w p =
     (let rv = n_pam_open_session lib (pamh (objs w p));
          w1 = emit (upd w p (\<lambda>x. x\<lparr>retval := rv\<rparr>)) (Native pam_open_session rv)
      in if rv \<noteq> PAM_SUCCESS lib
         then (let (w2, e) = codeToError lib w1 p rv in (w2, None, e))
         else (w1, Some p, None))"

definition Open_account :: "native \<Rightarrow> world \<Rightarrow> ref \<Rightarrow> world \<times> ref option \<times> error option" where
  "Open_account lib w p =
     (let rv = n_pam_acct_mgmt lib (pamh (objs w p));
          w1 = emit w (Native pam_acct_mgmt rv)
      in if rv \<noteq> PAM_SUCCESS lib
         then (let (w2, e) = codeToError lib w1 p rv in (w2, None, e))
         else Open_session lib w1 p)"

definition Open_start :: "native \<Rightarrow> world \<Rightarrow> ref \<Rightarrow> Config \<Rightarrow> world \<times> ref option \<times> error option" where
  "Open_start lib w p cfg =
     (let (rv, h) = n_pam_start lib (ServiceName cfg) (Username cfg);
          w1 = emit (upd w p (\<lambda>x. x\<lparr>retval := rv, pamh := h\<rparr>)) (Native pam_start rv)
      in if rv \<noteq> PAM_SUCCESS lib
         then (let (w2, e) = codeToError lib w1 p rv in (w2, None, e))
         else Open_account lib w1 p)"

text \<open>\<open>Open\<close>, cut in four for reading: the part up to the registration is \<open>Open_alloc\<close>, the
  three native calls with their checks are \<open>Open_start\<close>, \<open>Open_account\<close> and
  \<open>Open_session\<close>.\<close>

definition Open_alloc :: "world \<Rightarrow> Config \<Rightarrow> world \<times> ref" where
  "Open_alloc w cfg =
     (let p = next_ref w;
          w1 = w\<lparr>next_ref := Suc p,
                 objs := (objs w)(p := zero_PAM\<lparr>stdin := Stdin cfg, stdout := Stdout cfg,
                                               stderr := Stderr cfg\<rparr>)\<rparr>;
          (w2, sn) = CString w1 (ServiceName cfg);
          w3 = upd w2 p (\<lambda>x. x\<lparr>service_name := Some sn\<rparr>);
          (w4, us) = CString w3 (Username cfg);
          w5 = upd w4 p (\<lambda>x. x\<lparr>user := Some us\<rparr>);
          (w6, i) = registerHandler w5 p;
          w7 = upd w6 p (\<lambda>x. x\<lparr>handlerIndex := i\<rparr>)
      in (w7, p))"

definition Open :: "native \<Rightarrow> world \<Rightarrow> Config option \<Rightarrow> world \<times> ref option \<times> error option" where
  "Open lib w config =
     (case config of
        None \<Rightarrow> (w, None, Some (trace_BadParameter lib ''PAM configuration is required.''))
      | Some cfg \<Rightarrow> (let (w1, p) = Open_alloc w cfg in Open_start lib w1 p cfg))"

text \<open>\<open>Close\<close> on a session \<open>p\<close> (a non-nil receiver).\<close>

definition Close :: "native \<Rightarrow> world \<Rightarrow> ref \<Rightarrow> world \<times> error option" where
  "Close lib w p =
     (let rv = n_pam_close_session lib (pamh (objs w p));
          w1 = emit (upd w p (\<lambda>x. x\<lparr>retval := rv\<rparr>)) (Native pam_close_session rv)
      in if rv \<noteq> PAM_SUCCESS lib then codeToError lib w1 p rv
         else (let rv2 = n_pam_end lib (pamh (objs w1 p)) (retval (objs w1 p));
                   w2 = emit w1 (Native pam_end rv2)
               in if rv2 \<noteq> PAM_SUCCESS lib then codeToError lib w2 p rv2
                  else (let w3 = free w2 (conv (objs w2 p));
                            w4 = free w3 (service_name (objs w3 p));
                            w5 = free w4 (user (objs w4 p));
                            w6 = unregisterHandler w5 (handlerIndex (objs w5 p))
                        in (w6, None))))"

subsection \<open>Reading the record of events\<close>

fun pam_calls :: "event list \<Rightarrow> (pam_fn \<times> c_int) list" where
  "pam_calls [] = []"
| "pam_calls (Native f rv # es) = (f, rv) # pam_calls es"
| "pam_calls (e # es) = pam_calls es"

fun frees :: "event list \<Rightarrow> ptr option list" where
  "frees [] = []"
| "frees (Free q # es) = q # frees es"
| "frees (e # es) = frees es"

text \<open>What \<open>Open\<close> appends to the record of events after its three allocations, read off the
  statuses the library returns.\<close>

definition Open_tail :: "native \<Rightarrow> Config \<Rightarrow> event list" where
  "Open_tail lib cfg =
     (let (r1, h) = n_pam_start lib (ServiceName cfg) (Username cfg);
          r2 = n_pam_acct_mgmt lib h;
          r3 = n_pam_open_session lib h
      in if r1 \<noteq> PAM_SUCCESS lib then [Native pam_start r1, StrError r1]
         else if r2 \<noteq> PAM_SUCCESS lib
           then [Native pam_start r1, Native pam_acct_mgmt r2, StrError r2]
         else if r3 \<noteq> PAM_SUCCESS lib
           then [Native pam_start r1, Native pam_acct_mgmt r2, Native pam_open_session r3,
                 StrError r3]
         else [Native pam_start r1, Native pam_acct_mgmt r2, Native pam_open_session r3])"

text \<open>The stream a write with descriptor \<open>stream\<close> goes to.\<close>

definition dest :: "PAM \<Rightarrow> go_int \<Rightarrow> writer option" where
  "dest p stream = (if stream = syscall_Stderr then stderr p else stdout p)"

subsection \<open>Runs of the registry\<close>

text \<open>Any interleaving of registrations and removals, each an atomic step under the mutex,
  is a list of operations applied in order.\<close>

datatype reg_op = Register ref | Unregister go_int

fun registry_run :: "world \<Rightarrow> reg_op list \<Rightarrow> world" where
  "registry_run w [] = w"
| "registry_run w (Register p # ops) = registry_run (fst (registerHandler w p)) ops"
| "registry_run w (Unregister i # ops) = registry_run (unregisterHandler w i) ops"

fun registrations :: "reg_op list \<Rightarrow> nat" where
  "registrations [] = 0"
| "registrations (Register p # ops) = Suc (registrations ops)"
| "registrations (Unregister i # ops) = registrations ops"

text \<open>After \<open>n\<close> registrations the counter is \<open>n\<close> (as a 64-bit word) and every id of the
  table is one of the values \<open>1, \<dots>, n\<close> the counter has had.\<close>

definition keys_inv :: "world \<Rightarrow> nat \<Rightarrow> bool" where
  "keys_inv w n \<longleftrightarrow>
     handlerCount w = of_nat n \<and>
     (\<forall>k \<in> dom (handlers w). \<exists>j. 1 \<le> j \<and> j \<le> n \<and> k = of_nat j)"

text \<open>The index in the conversation descriptor of session \<open>p\<close>: the id the native side
  holds and presents in the callbacks.\<close>

definition descriptor_index :: "world \<Rightarrow> ref \<Rightarrow> c_int option" where
  "descriptor_index w p =
     (case conv (objs w p) of
        None \<Rightarrow> None
      | Some q \<Rightarrow> (case nheap w q of Some (PamConv i) \<Rightarrow> Some i | _ \<Rightarrow> None))"

subsection \<open>A library and a configuration to run the code on\<close>

text \<open>A library in which every call succeeds, with the sizes of Linux-PAM, and variants in
  which one call fails. The formatter of the sample is what Go prints for a format that
  ends in a lone \<open>%\<close>; it is consulted for no other format.\<close>

definition lib_demo :: native where
  "lib_demo =
     \<lparr>PAM_SUCCESS = 0, PAM_MAX_MSG_SIZE = 512, PAM_MAX_RESP_SIZE = 512, n_dlopen = Some 1,
      n_pam_start = (\<lambda>service username. (0, Some 7)),
      n_pam_acct_mgmt = (\<lambda>h. 0),
      n_pam_open_session = (\<lambda>h. 0),
      n_pam_close_session = (\<lambda>h. 0),
      n_pam_end = (\<lambda>h status. 0),
      n_pam_strerror = (\<lambda>h status. Some ''Cannot make/remove an entry for the specified session''),
      fmt_verbs = (\<lambda>rest. ''%!(NOVERB)'')\<rparr>"

definition lib_close_fails :: native where
  "lib_close_fails = lib_demo\<lparr>n_pam_close_session := (\<lambda>h. 14)\<rparr>"

definition lib_acct_fails :: native where
  "lib_acct_fails = lib_demo\<lparr>n_pam_acct_mgmt := (\<lambda>h. 13)\<rparr>"

definition lib_mute :: native where
  "lib_mute = lib_demo\<lparr>n_pam_start := (\<lambda>service username. (4, None)),
                        n_pam_strerror := (\<lambda>h status. None)\<rparr>"

definition lib_percent :: native where
  "lib_percent = lib_demo\<lparr>n_pam_start := (\<lambda>service username. (4, None)),
                           n_pam_strerror := (\<lambda>h status. Some ''quota at 100%'')\<rparr>"

definition cfg_demo :: Config where
  "cfg_demo =
     \<lparr>Enabled = True, ServiceName = ''sshd'', Username = ''alice'',
      Stdin = Some \<lparr>chunks = [''yes'' @ [NL] @ ''rest''], fail_with = EOF\<rparr>,
      Stdout = Some \<lparr>written = [], room = None\<rparr>,
      Stderr = Some \<lparr>written = [], room = None\<rparr>\<rparr>"

definition pam_demo :: PAM where
  "pam_demo = zero_PAM\<lparr>stdout := Some \<lparr>written = [], room = None\<rparr>,
                         stderr := Some \<lparr>written = ''E: '', room = None\<rparr>\<rparr>"

definition cfg_long :: Config where
  "cfg_long = cfg_demo\<lparr>Stdin := Some \<lparr>chunks = [replicate 521 (CHR ''x'') @ [NL] @ ''more''],
                                         fail_with = EOF\<rparr>\<rparr>"

definition cfg_eof :: Config where
  "cfg_eof = cfg_demo\<lparr>Stdin := Some \<lparr>chunks = [''no newline''], fail_with = EOF\<rparr>\<rparr>"

text \<open>The states after a successful \<open>Open\<close> on each configuration, and after \<open>Open\<close> and
  \<open>Close\<close>.\<close>

definition w_open :: world where
  "w_open = fst (Open lib_demo initial_world (Some cfg_demo))"

definition w_long :: world where
  "w_long = fst (Open lib_demo initial_world (Some cfg_long))"

definition w_eof :: world where
  "w_eof = fst (Open lib_demo initial_world (Some cfg_eof))"

definition w_closed :: world where
  "w_closed = fst (Close lib_demo w_open 0)"

text \<open>Long runs of the registry from the start of the process: \<open>2^31 - 1\<close> and
  \<open>2^63 - 1\<close> registrations, and session 0 followed by \<open>2^32 - 1\<close> and by \<open>2^64 - 1\<close>
  registrations, with session 0 registered all along.\<close>

definition w_2_31 :: world where
  "w_2_31 = registry_run initial_world (replicate (2 ^ 31 - 1) (Register 0))"

definition w_2_32 :: world where
  "w_2_32 = registry_run initial_world (Register 0 # replicate (2 ^ 32 - 1) (Register 1))"

definition w_2_63 :: world where
  "w_2_63 = registry_run initial_world (replicate (2 ^ 63 - 1) (Register 0))"

definition w_2_64 :: world where
  "w_2_64 = registry_run initial_world (Register 0 # replicate (2 ^ 64 - 1) (Register 1))"

section \<open>Properties\<close>

subsection \<open>Reading the record of events\<close>

lemma pam_calls_append: "pam_calls (xs @ ys) = pam_calls xs @ pam_calls ys"
  by (induction xs rule: pam_calls.induct) simp_all

lemma frees_append: "frees (xs @ ys) = frees xs @ frees ys"
  by (induction xs rule: frees.induct) simp_all

subsection \<open>Open\<close>

lemmas alloc_defs = Open_alloc_def CString_def malloc_def emit_def upd_def registerHandler_def
  make_pam_conv_def Let_def zero_PAM_def

lemmas open_defs = Open_start_def Open_account_def Open_session_def codeToError_def emit_def
  upd_def Let_def

lemma events_Open_alloc:
  "events (fst (Open_alloc w cfg)) =
     events w @ [Malloc (next_ptr w), Malloc (Suc (next_ptr w)), Malloc (Suc (Suc (next_ptr w)))]"
  by (simp add: alloc_defs split: prod.splits)

lemma snd_Open_alloc: "snd (Open_alloc w cfg) = next_ref w"
  by (simp add: alloc_defs split: prod.splits)

lemma pamh_Open_alloc: "pamh (objs (fst (Open_alloc w cfg)) (next_ref w)) = None"
  by (simp add: alloc_defs split: prod.splits)

lemma events_Open_start:
  "events (fst (Open_start lib w p cfg)) = events w @ Open_tail lib cfg"
  by (simp add: open_defs Open_tail_def split: prod.splits option.splits)

lemma events_Open:
  "events (fst (Open lib w (Some cfg))) =
     events w @ [Malloc (next_ptr w), Malloc (Suc (next_ptr w)), Malloc (Suc (Suc (next_ptr w)))]
       @ Open_tail lib cfg"
  by (simp add: Open_def events_Open_start events_Open_alloc split_beta)

lemma result_Open_start:
  "pamh (objs w p) = None \<Longrightarrow>
   snd (Open_start lib w p cfg) =
     (let (r1, h) = n_pam_start lib (ServiceName cfg) (Username cfg);
          r2 = n_pam_acct_mgmt lib h;
          r3 = n_pam_open_session lib h
      in if r1 \<noteq> PAM_SUCCESS lib then (None, map_option (trace_BadParameter lib) (n_pam_strerror lib h r1))
         else if r2 \<noteq> PAM_SUCCESS lib then (None, map_option (trace_BadParameter lib) (n_pam_strerror lib h r2))
         else if r3 \<noteq> PAM_SUCCESS lib then (None, map_option (trace_BadParameter lib) (n_pam_strerror lib h r3))
         else (Some p, None))"
  by (simp add: open_defs split: prod.splits option.splits)

lemma result_Open:
  "snd (Open lib w (Some cfg)) =
     (let (r1, h) = n_pam_start lib (ServiceName cfg) (Username cfg);
          r2 = n_pam_acct_mgmt lib h;
          r3 = n_pam_open_session lib h
      in if r1 \<noteq> PAM_SUCCESS lib then (None, map_option (trace_BadParameter lib) (n_pam_strerror lib h r1))
         else if r2 \<noteq> PAM_SUCCESS lib then (None, map_option (trace_BadParameter lib) (n_pam_strerror lib h r2))
         else if r3 \<noteq> PAM_SUCCESS lib then (None, map_option (trace_BadParameter lib) (n_pam_strerror lib h r3))
         else (Some (next_ref w), None))"
  by (simp add: Open_def result_Open_start pamh_Open_alloc snd_Open_alloc split_beta)

text \<open>
  C3. For every configuration, the PAM calls that \<open>Open\<close> adds to the record are, in this
  order, transaction-start, account-management and open-session, cut after the first call
  whose status is not \<open>PAM_SUCCESS\<close>: a failed start is followed by no account-management
  call, a failed account-management by no open-session call.
\<close>

theorem Open_native_call_order:
  "pam_calls (events (fst (Open lib w (Some cfg)))) =
     pam_calls (events w) @
       (let (r1, h) = n_pam_start lib (ServiceName cfg) (Username cfg);
            r2 = n_pam_acct_mgmt lib h;
            r3 = n_pam_open_session lib h
        in if r1 \<noteq> PAM_SUCCESS lib then [(pam_start, r1)]
           else if r2 \<noteq> PAM_SUCCESS lib then [(pam_start, r1), (pam_acct_mgmt, r2)]
           else [(pam_start, r1), (pam_acct_mgmt, r2), (pam_open_session, r3)])"
  by (simp add: events_Open Open_tail_def pam_calls_append Let_def split: prod.splits)

text \<open>
  C5. With a nil configuration \<open>Open\<close> returns no session and the bad-parameter error, and
  leaves the whole state as it was: no event is recorded (no native call, no allocation), no
  handler is registered and the native heap is untouched.
\<close>

theorem Open_nil_config:
  "Open lib w None = (w, None, Some (BadParameter ''PAM configuration is required.'')) \<and>
   events (fst (Open lib w None)) = events w \<and>
   handlers (fst (Open lib w None)) = handlers w \<and>
   handlerCount (fst (Open lib w None)) = handlerCount w \<and>
   nheap (fst (Open lib w None)) = nheap w"
  by (simp add: Open_def trace_BadParameter_def Sprintf_def)

subsection \<open>The fallback build\<close>

text \<open>
  C10. In the fallback build \<open>Open\<close> returns a session and no error for every argument, a nil
  configuration included (where the real build returns the bad-parameter error), \<open>Close\<close>
  returns no error, and both capability queries are false.
\<close>

theorem nop_build_always_succeeds:
  "Open_nop config = (Some PAM_nop, None) \<and>
   Open_nop None = (Some PAM_nop, None) \<and>
   snd (snd (Open lib w None)) \<noteq> snd (Open_nop None) \<and>
   Close_nop p = None \<and>
   \<not> BuildHasPAM_nop \<and> \<not> SystemHasPAM_nop"
  by (simp add: Open_nop_def Close_nop_def BuildHasPAM_nop_def SystemHasPAM_nop_def
      buildHasPAM_nop_def systemHasPAM_nop_def Open_def)

subsection \<open>The handle registry\<close>

lemmas reg_defs = registerHandler_def make_pam_conv_def malloc_def emit_def Let_def

lemma handlerCount_register: "handlerCount (fst (registerHandler w p)) = handlerCount w + 1"
  by (simp add: reg_defs)

lemma snd_register: "snd (registerHandler w p) = handlerCount w + 1"
  by (simp add: reg_defs)

lemma handlers_register:
  "handlers (fst (registerHandler w p)) = (handlers w)(handlerCount w + 1 \<mapsto> p)"
  by (simp add: reg_defs)

lemma handlerCount_unregister: "handlerCount (unregisterHandler w i) = handlerCount w"
  by (simp add: unregisterHandler_def)

lemma handlers_unregister: "handlers (unregisterHandler w i) = (handlers w)(i := None)"
  by (simp add: unregisterHandler_def)

lemma handlerCount_run:
  "handlerCount (registry_run w ops) = handlerCount w + of_nat (registrations ops)"
  by (induction w ops rule: registry_run.induct)
     (simp_all add: handlerCount_register handlerCount_unregister)

lemma registrations_replicate: "registrations (replicate n (Register p)) = n"
  by (induction n) simp_all

lemma of_nat_neq_64:
  assumes "j < m" "m - j < 2 ^ 64"
  shows "(of_nat m :: go_int) \<noteq> of_nat j"
proof
  assume "(of_nat m :: go_int) = of_nat j"
  then have "m mod 2 ^ 64 = j mod 2 ^ 64"
    by (simp add: word_of_nat_eq_iff take_bit_eq_mod)
  then have "(2 ^ 64 :: nat) dvd m - j"
    using assms(1) by (simp add: mod_eq_dvd_iff_nat)
  with assms show False
    by (auto dest: dvd_imp_le)
qed

lemma of_nat_neq_32:
  assumes "j < m" "m - j < 2 ^ 32"
  shows "(of_nat m :: c_int) \<noteq> of_nat j"
proof
  assume "(of_nat m :: c_int) = of_nat j"
  then have "m mod 2 ^ 32 = j mod 2 ^ 32"
    by (simp add: word_of_nat_eq_iff take_bit_eq_mod)
  then have "(2 ^ 32 :: nat) dvd m - j"
    using assms(1) by (simp add: mod_eq_dvd_iff_nat)
  with assms show False
    by (auto dest: dvd_imp_le)
qed

lemma ucast_of_nat_32: "(ucast (of_nat m :: go_int) :: c_int) = of_nat m"
  by (simp add: unsigned_of_nat take_bit_of_nat word_of_nat_eq_iff take_bit_eq_mod mod_mod_cancel)

lemma sint_of_nat_64: "m < 2 ^ 63 \<Longrightarrow> sint (of_nat m :: go_int) = int m"
  by (simp add: signed_of_nat signed_take_bit_int_eq_self)

lemma sint_of_nat_32: "m < 2 ^ 31 \<Longrightarrow> sint (of_nat m :: c_int) = int m"
  by (simp add: signed_of_nat signed_take_bit_int_eq_self)

lemma scast_of_nat_32: "m < 2 ^ 31 \<Longrightarrow> (scast (of_nat m :: c_int) :: go_int) = of_nat m"
  by (simp add: scast_eq sint_of_nat_32)

lemma descriptor_register:
  "descriptor_index (fst (registerHandler w p)) p = Some (ucast (handlerCount w + 1))"
  by (simp add: descriptor_index_def reg_defs)

lemma next_ptr_register: "next_ptr (fst (registerHandler w p)) = Suc (next_ptr w)"
  by (simp add: reg_defs)

lemma objs_register_other: "r \<noteq> p \<Longrightarrow> objs (fst (registerHandler w p)) r = objs w r"
  by (simp add: reg_defs)

lemma nheap_register_old: "q < next_ptr w \<Longrightarrow> nheap (fst (registerHandler w p)) q = nheap w q"
  by (simp add: reg_defs)

lemma keys_register:
  assumes "keys_inv w n"
  shows "keys_inv (fst (registerHandler w p)) (Suc n)"
proof -
  have hc: "handlerCount w = of_nat n" using assms by (simp add: keys_inv_def)
  have "\<exists>j. 1 \<le> j \<and> j \<le> Suc n \<and> k = of_nat j"
    if "k \<in> dom ((handlers w)(handlerCount w + 1 \<mapsto> p))" for k
  proof (cases "k = handlerCount w + 1")
    case True
    then have "1 \<le> Suc n \<and> Suc n \<le> Suc n \<and> k = of_nat (Suc n)" by (simp add: hc)
    then show ?thesis by blast
  next
    case False
    with that have "k \<in> dom (handlers w)" by auto
    with assms obtain j where "1 \<le> j" "j \<le> n" "k = of_nat j"
      by (auto simp: keys_inv_def)
    then have "1 \<le> j \<and> j \<le> Suc n \<and> k = of_nat j" by simp
    then show ?thesis by blast
  qed
  then show ?thesis
    by (simp add: keys_inv_def handlerCount_register handlers_register hc)
qed

lemma keys_unregister: "keys_inv w n \<Longrightarrow> keys_inv (unregisterHandler w i) n"
  by (auto simp: keys_inv_def handlerCount_unregister handlers_unregister)

lemma keys_run:
  "keys_inv w n \<Longrightarrow> keys_inv (registry_run w ops) (n + registrations ops)"
proof (induction w ops arbitrary: n rule: registry_run.induct)
  case (1 w)
  then show ?case by simp
next
  case (2 w p ops)
  from "2.IH" [OF keys_register [OF "2.prems"]] show ?case by simp
next
  case (3 w i ops)
  from "3.IH" [OF keys_unregister [OF "3.prems"]] show ?case by simp
qed

lemma fresh_64:
  assumes "keys_inv w n" "n < 2 ^ 64"
  shows "handlers w (of_nat (Suc n)) = None"
proof (rule ccontr)
  assume "handlers w (of_nat (Suc n)) \<noteq> None"
  then have "of_nat (Suc n) \<in> dom (handlers w)" by auto
  with assms(1) obtain j where j: "1 \<le> j" "j \<le> n" "(of_nat (Suc n) :: go_int) = of_nat j"
    by (auto simp: keys_inv_def)
  from j(1,2) assms(2) have "j < Suc n" "Suc n - j < 2 ^ 64" by simp_all
  from of_nat_neq_64 [OF this] j(3) show False by simp
qed

lemma positive_64:
  assumes "keys_inv w n" "n < 2 ^ 63 - 1"
  shows "0 <s (of_nat (Suc n) :: go_int) \<and> (\<forall>k \<in> dom (handlers w). 0 <s k)"
proof -
  have "0 <s k" if "k \<in> dom (handlers w)" for k
  proof -
    from that assms(1) obtain j where j: "1 \<le> j" "j \<le> n" "k = of_nat j"
      by (auto simp: keys_inv_def)
    from j(2) assms(2) have "j < 2 ^ 63" by simp
    from sint_of_nat_64 [OF this] j(1,3) show ?thesis by (simp add: word_sless_alt)
  qed
  moreover have "0 <s (of_nat (Suc n) :: go_int)"
  proof -
    from assms(2) have "Suc n < 2 ^ 63" by simp
    from sint_of_nat_64 [OF this] show ?thesis by (simp add: word_sless_alt)
  qed
  ultimately show ?thesis by blast
qed

lemma distinct_32:
  assumes "keys_inv w n" "n < 2 ^ 32"
  shows "\<forall>k \<in> dom (handlers w). (ucast k :: c_int) \<noteq> ucast (of_nat (Suc n) :: go_int)"
proof
  fix k assume "k \<in> dom (handlers w)"
  with assms(1) obtain j where j: "1 \<le> j" "j \<le> n" "k = of_nat j"
    by (auto simp: keys_inv_def)
  from j(1,2) assms(2) have "j < Suc n" "Suc n - j < 2 ^ 32" by simp_all
  from of_nat_neq_32 [OF this] have "(of_nat (Suc n) :: c_int) \<noteq> of_nat j" .
  then show "(ucast k :: c_int) \<noteq> ucast (of_nat (Suc n) :: go_int)"
    unfolding j(3) ucast_of_nat_32 by (rule not_sym)
qed

lemma native_31:
  assumes "keys_inv w n" "n < 2 ^ 31 - 1"
  shows "0 <s (ucast (of_nat (Suc n) :: go_int) :: c_int) \<and>
         scast (ucast (of_nat (Suc n) :: go_int) :: c_int) = (of_nat (Suc n) :: go_int) \<and>
         (\<forall>k \<in> dom (handlers w). scast (ucast k :: c_int) = k)"
proof -
  from assms(2) have s: "Suc n < 2 ^ 31" by simp
  have a: "0 <s (ucast (of_nat (Suc n) :: go_int) :: c_int)"
    using sint_of_nat_32 [OF s] by (simp only: ucast_of_nat_32 word_sless_alt) simp
  have b: "scast (ucast (of_nat (Suc n) :: go_int) :: c_int) = (of_nat (Suc n) :: go_int)"
    using scast_of_nat_32 [OF s] by (simp only: ucast_of_nat_32)
  have "scast (ucast k :: c_int) = k" if "k \<in> dom (handlers w)" for k
  proof -
    from that assms(1) obtain j where j: "1 \<le> j" "j \<le> n" "k = of_nat j"
      by (auto simp: keys_inv_def)
    from j(2) assms(2) have "j < 2 ^ 31" by simp
    from scast_of_nat_32 [OF this] show ?thesis by (simp only: j(3) ucast_of_nat_32)
  qed
  with a b show ?thesis by blast
qed

text \<open>
  C9, as amended. Start from an empty registry with the counter at 0, apply any
  interleaving of registrations and removals, \<open>n\<close> of them registrations, and register
  session \<open>p\<close> in the state \<open>w\<close> reached. The registration changes the table at the new
  id \<open>c\<close> only, and the descriptor of \<open>p\<close> carries \<open>c\<close> cut to a C int; a removal
  deletes exactly the id given. While \<open>n < 2^64\<close> the id \<open>c\<close> is not in the table, so
  no registered session loses or shares its id. While \<open>n < 2^63 - 1\<close> the id \<open>c\<close> and
  all ids of the table are positive. While \<open>n < 2^32\<close> the descriptor index of \<open>p\<close>
  differs from the one made for every id of the table. While \<open>n < 2^31 - 1\<close> the
  descriptor index of \<open>p\<close> is positive and a callback presenting it finds \<open>p\<close>, as a
  callback presenting the index made for an id of the table finds that id.
\<close>

theorem registry_ids_fresh:
  assumes "handlerCount w0 = 0" and "handlers w0 = Map.empty"
    and "w = registry_run w0 ops" and "n = registrations ops"
    and "c = snd (registerHandler w p)" and "w' = fst (registerHandler w p)"
  shows "handlers w' = (handlers w)(c \<mapsto> p) \<and>
         descriptor_index w' p = Some (ucast c) \<and>
         handlers (unregisterHandler w i) = (handlers w)(i := None) \<and>
         (n < 2 ^ 64 \<longrightarrow> handlers w c = None) \<and>
         (n < 2 ^ 63 - 1 \<longrightarrow> 0 <s c \<and> (\<forall>k \<in> dom (handlers w). 0 <s k)) \<and>
         (n < 2 ^ 32 \<longrightarrow> (\<forall>k \<in> dom (handlers w). (ucast k :: c_int) \<noteq> ucast c)) \<and>
         (n < 2 ^ 31 - 1 \<longrightarrow>
            0 <s (ucast c :: c_int) \<and> handlers w' (scast (ucast c :: c_int)) = Some p \<and>
            (\<forall>k \<in> dom (handlers w). scast (ucast k :: c_int) = k))"
proof -
  have "keys_inv w0 0" using assms(1,2) by (simp add: keys_inv_def)
  from keys_run [OF this, of ops] have inv: "keys_inv w n"
    by (simp add: assms(3,4))
  then have hc: "handlerCount w = of_nat n" by (simp add: keys_inv_def)
  have c: "c = of_nat (Suc n)" by (simp add: assms(5) snd_register hc)
  have t: "handlers w' = (handlers w)(c \<mapsto> p)"
    by (simp add: assms(5,6) handlers_register snd_register)
  have d: "descriptor_index w' p = Some (ucast c)"
    by (simp add: assms(5,6) descriptor_register snd_register)
  have u: "handlers (unregisterHandler w i) = (handlers w)(i := None)"
    by (rule handlers_unregister)
  have t64: "n < 2 ^ 64 \<longrightarrow> handlers w c = None"
    using fresh_64 [OF inv] by (simp add: c)
  have t63: "n < 2 ^ 63 - 1 \<longrightarrow> 0 <s c \<and> (\<forall>k \<in> dom (handlers w). 0 <s k)"
    using positive_64 [OF inv] unfolding c by blast
  have t32: "n < 2 ^ 32 \<longrightarrow> (\<forall>k \<in> dom (handlers w). (ucast k :: c_int) \<noteq> ucast c)"
    using distinct_32 [OF inv] unfolding c by blast
  have t31: "n < 2 ^ 31 - 1 \<longrightarrow>
            0 <s (ucast c :: c_int) \<and> handlers w' (scast (ucast c :: c_int)) = Some p \<and>
            (\<forall>k \<in> dom (handlers w). scast (ucast k :: c_int) = k)"
  proof
    assume "n < 2 ^ 31 - 1"
    from native_31 [OF inv this] have
      a: "0 <s (ucast c :: c_int)" and b: "scast (ucast c :: c_int) = c"
      and k: "\<forall>k \<in> dom (handlers w). scast (ucast k :: c_int) = k"
      unfolding c by blast+
    have "handlers w' (scast (ucast c :: c_int)) = Some p"
      by (simp only: b t) simp
    with a k show "0 <s (ucast c :: c_int) \<and> handlers w' (scast (ucast c :: c_int)) = Some p \<and>
            (\<forall>k \<in> dom (handlers w). scast (ucast k :: c_int) = k)" by blast
  qed
  show ?thesis
    by (intro conjI t d u t64 t63 t32 t31)
qed


text \<open>The run: two sessions register, the first one leaves, a third registers and gets
  id 3, which is also the index in its descriptor, while id 2 is still held by the
  second.\<close>

theorem registry_ids_fresh_witness:
  "handlerCount initial_world = 0 \<and> handlers initial_world = Map.empty \<and>
   registrations [Register 0, Register 1, Unregister 1] = 2 \<and>
   snd (registerHandler (registry_run initial_world [Register 0, Register 1, Unregister 1]) 2) = 3 \<and>
   0 <s (3 :: go_int) \<and> 0 <s (ucast (3 :: go_int) :: c_int) \<and>
   handlers (registry_run initial_world [Register 0, Register 1, Unregister 1]) 1 = None \<and>
   handlers (registry_run initial_world [Register 0, Register 1, Unregister 1]) 2 = Some 1 \<and>
   handlers (registry_run initial_world [Register 0, Register 1, Unregister 1]) 3 = None \<and>
   descriptor_index
     (fst (registerHandler (registry_run initial_world [Register 0, Register 1, Unregister 1]) 2)) 2
     = Some 3 \<and>
   handlers
     (fst (registerHandler (registry_run initial_world [Register 0, Register 1, Unregister 1]) 2))
     (scast (3 :: c_int)) = Some 2"
  using registry_ids_fresh [where ?w0.0 = initial_world
      and ops = "[Register 0, Register 1, Unregister 1]"
      and w = "registry_run initial_world [Register 0, Register 1, Unregister 1]"
      and n = 2 and p = 2 and i = 0
      and c = "snd (registerHandler
                 (registry_run initial_world [Register 0, Register 1, Unregister 1]) 2)"
      and w' = "fst (registerHandler
                  (registry_run initial_world [Register 0, Register 1, Unregister 1]) 2)"]
  by (simp add: initial_world_def reg_defs unregisterHandler_def word_sless_alt
      descriptor_index_def)

lemma handlers_replicate_other:
  "(\<forall>j. 1 \<le> j \<and> j \<le> n \<longrightarrow> k \<noteq> handlerCount w + of_nat j) \<Longrightarrow>
   handlers (registry_run w (replicate n (Register r))) k = handlers w k"
proof (induction n arbitrary: w)
  case 0
  then show ?case by simp
next
  case (Suc n)
  let ?w1 = "fst (registerHandler w r)"
  have "\<forall>j. 1 \<le> j \<and> j \<le> n \<longrightarrow> k \<noteq> handlerCount ?w1 + of_nat j"
  proof (intro allI impI)
    fix j assume "1 \<le> j \<and> j \<le> n"
    then have "1 \<le> Suc j \<and> Suc j \<le> Suc n" by simp
    with Suc.prems have "k \<noteq> handlerCount w + of_nat (Suc j)" by blast
    then show "k \<noteq> handlerCount ?w1 + of_nat j"
      by (simp add: handlerCount_register add.assoc)
  qed
  from Suc.IH [OF this] have "handlers (registry_run ?w1 (replicate n (Register r))) k =
      handlers ?w1 k" .
  moreover from Suc.prems have "k \<noteq> handlerCount w + of_nat 1" by (metis le_refl Suc_le_mono le0 One_nat_def)
  ultimately show ?case by (simp add: handlers_register)
qed

lemma objs_replicate_other:
  "p \<noteq> r \<Longrightarrow> objs (registry_run w (replicate n (Register r))) p = objs w p"
  by (induction n arbitrary: w) (simp_all add: objs_register_other)

lemma next_ptr_replicate:
  "next_ptr (registry_run w (replicate n (Register r))) = next_ptr w + n"
  by (induction n arbitrary: w) (simp_all add: next_ptr_register)

lemma nheap_replicate_old:
  "q < next_ptr w \<Longrightarrow> nheap (registry_run w (replicate n (Register r))) q = nheap w q"
proof (induction n arbitrary: w)
  case 0
  then show ?case by simp
next
  case (Suc n)
  from Suc.prems have "q < next_ptr (fst (registerHandler w r))"
    by (simp add: next_ptr_register)
  from Suc.IH [OF this] Suc.prems show ?case
    by (simp add: nheap_register_old)
qed

lemma of_nat_nonzero_64: "1 \<le> j \<Longrightarrow> j < 2 ^ 64 \<Longrightarrow> (of_nat j :: go_int) \<noteq> 0"
  using of_nat_neq_64 [of 0 j] by simp

text \<open>The state after the first registration, of session 0.\<close>

lemma first_registration:
  "handlerCount (fst (registerHandler initial_world 0)) = 1"
  "handlers (fst (registerHandler initial_world 0)) 1 = Some 0"
  "conv (objs (fst (registerHandler initial_world 0)) 0) = Some 0"
  "nheap (fst (registerHandler initial_world 0)) 0 = Some (PamConv 1)"
  "next_ptr (fst (registerHandler initial_world 0)) = 1"
  by (simp_all add: reg_defs initial_world_def)

lemma long_run_keeps_first:
  assumes "n < 2 ^ 64"
    and "w = registry_run initial_world (Register 0 # replicate n (Register 1))"
  shows "handlers w 1 = Some 0" and "descriptor_index w 0 = Some 1"
    and "handlerCount w = 1 + of_nat n" and "0 < next_ptr w"
proof -
  let ?w1 = "fst (registerHandler initial_world 0)"
  have w: "w = registry_run ?w1 (replicate n (Register 1))" by (simp add: assms(2))
  have "\<forall>j. 1 \<le> j \<and> j \<le> n \<longrightarrow> (1 :: go_int) \<noteq> handlerCount ?w1 + of_nat j"
  proof (intro allI impI)
    fix j assume j: "1 \<le> j \<and> j \<le> n"
    with assms(1) have "(of_nat j :: go_int) \<noteq> 0" by (intro of_nat_nonzero_64) simp_all
    then show "(1 :: go_int) \<noteq> handlerCount ?w1 + of_nat j"
      by (simp add: first_registration)
  qed
  from handlers_replicate_other [OF this] show "handlers w 1 = Some 0"
    by (simp add: w first_registration)
  have o: "objs w 0 = objs ?w1 0"
    unfolding w by (rule objs_replicate_other) simp
  have h: "nheap w 0 = nheap ?w1 0"
    unfolding w by (rule nheap_replicate_old) (simp add: first_registration)
  show "descriptor_index w 0 = Some 1"
    by (simp add: descriptor_index_def o h first_registration)
  show "handlerCount w = 1 + of_nat n"
    by (simp add: w handlerCount_run registrations_replicate first_registration)
  show "0 < next_ptr w"
    by (simp add: w next_ptr_replicate first_registration)
qed

lemma descriptor_register_other:
  assumes "r \<noteq> p" "conv (objs w r) = Some q" "q < next_ptr w"
  shows "descriptor_index (fst (registerHandler w p)) r = descriptor_index w r"
  using assms by (simp add: descriptor_index_def objs_register_other nheap_register_old)

text \<open>
  Each bound is met by a run that breaks the claim as stated. After \<open>2^31 - 1\<close>
  registrations the next descriptor index is \<open>-2^31\<close>, not positive. After \<open>2^32\<close>
  registrations, with session 0 still registered under id 1, session 2 is registered under
  id \<open>2^32 + 1\<close> and its descriptor carries index 1 as that of session 0 does: a callback
  presenting it finds session 0. After \<open>2^63 - 1\<close> registrations the next id is not
  positive. After \<open>2^64\<close> registrations, with session 0 still registered under id 1, the
  next registration is given id 1 and takes the entry of session 0.
\<close>

theorem registry_id_limits:
  "descriptor_index (fst (registerHandler w_2_31 0)) 0 = Some (- (2 ^ 31)) \<and>
   \<not> 0 <s (- (2 ^ 31) :: c_int) \<and>
   handlers w_2_32 1 = Some 0 \<and>
   snd (registerHandler w_2_32 2) = 2 ^ 32 + 1 \<and>
   handlers (fst (registerHandler w_2_32 2)) 1 = Some 0 \<and>
   handlers (fst (registerHandler w_2_32 2)) (2 ^ 32 + 1) = Some 2 \<and>
   descriptor_index (fst (registerHandler w_2_32 2)) 0 = Some 1 \<and>
   descriptor_index (fst (registerHandler w_2_32 2)) 2 = Some 1 \<and>
   handlers (fst (registerHandler w_2_32 2)) (scast (1 :: c_int)) = Some 0 \<and>
   \<not> 0 <s snd (registerHandler w_2_63 0) \<and>
   handlers w_2_64 1 = Some 0 \<and>
   snd (registerHandler w_2_64 2) = 1 \<and>
   handlers (fst (registerHandler w_2_64 2)) 1 = Some 2"
proof -
  have a: "handlerCount w_2_31 = of_nat (2 ^ 31 - 1)"
    by (simp add: w_2_31_def handlerCount_run registrations_replicate initial_world_def)
  have A: "descriptor_index (fst (registerHandler w_2_31 0)) 0 = Some (- (2 ^ 31))"
    by (simp add: descriptor_register a)
  have A': "\<not> 0 <s (- (2 ^ 31) :: c_int)"
    by (simp add: word_sless_alt)
  note b = long_run_keeps_first [of "2 ^ 32 - 1" w_2_32, unfolded w_2_32_def [symmetric], OF _ refl]
  have b1: "handlers w_2_32 1 = Some 0" by (rule b(1)) simp
  have b2: "descriptor_index w_2_32 0 = Some 1" by (rule b(2)) simp
  have b3: "handlerCount w_2_32 = 2 ^ 32" using b(3) by simp
  have b4: "0 < next_ptr w_2_32" by (rule b(4)) simp
  have B1: "snd (registerHandler w_2_32 2) = 2 ^ 32 + 1"
    by (simp add: snd_register b3)
  have B2: "handlers (fst (registerHandler w_2_32 2)) 1 = Some 0"
    by (simp add: handlers_register b3 b1)
  have B3: "handlers (fst (registerHandler w_2_32 2)) (2 ^ 32 + 1) = Some 2"
    by (simp add: handlers_register b3)
  have c0: "conv (objs w_2_32 0) = Some 0"
    unfolding w_2_32_def
    by (simp add: objs_replicate_other first_registration)
  have B4: "descriptor_index (fst (registerHandler w_2_32 2)) 0 = Some 1"
    using descriptor_register_other [of 0 2 w_2_32 0] c0 b4 b2 by simp
  have B5: "descriptor_index (fst (registerHandler w_2_32 2)) 2 = Some 1"
    by (simp add: descriptor_register b3)
  have B6: "handlers (fst (registerHandler w_2_32 2)) (scast (1 :: c_int)) = Some 0"
    using B2 by simp
  have c: "handlerCount w_2_63 = of_nat (2 ^ 63 - 1)"
    by (simp add: w_2_63_def handlerCount_run registrations_replicate initial_world_def)
  have C: "\<not> 0 <s snd (registerHandler w_2_63 0)"
    by (simp add: snd_register c word_sless_alt)
  note d = long_run_keeps_first [of "2 ^ 64 - 1" w_2_64, unfolded w_2_64_def [symmetric], OF _ refl]
  have D1: "handlers w_2_64 1 = Some 0" by (rule d(1)) simp
  have d3: "handlerCount w_2_64 = 0" using d(3) by simp
  have D2: "snd (registerHandler w_2_64 2) = 1"
    by (simp add: snd_register d3)
  have D3: "handlers (fst (registerHandler w_2_64 2)) 1 = Some 2"
    by (simp add: handlers_register d3)
  show ?thesis
    by (intro conjI A A' b1 B1 B2 B3 B4 B5 B6 C D1 D2 D3)
qed

subsection \<open>The write path\<close>

lemma count_Replace: "count_list (Replace s NL [CR, NL]) NL = count_list s NL"
  by (induction s) simp_all

lemma length_Replace: "length (Replace s NL [CR, NL]) = length s + count_list s NL"
  by (induction s) simp_all

lemma count_CR_Replace:
  "count_list (Replace s NL [CR, NL]) CR = count_list s CR + count_list s NL"
  by (induction s) simp_all

lemma Replace_concat:
  "Replace s NL [CR, NL] = concat (map (\<lambda>c. if c = NL then [CR, NL] else [c]) s)"
  by (induction s) simp_all

lemma Replace_no_NL: "NL \<notin> set s \<Longrightarrow> Replace s NL [CR, NL] = s"
  by (induction s) auto

lemma NL_after_CR:
  "i < length (Replace s NL [CR, NL]) \<Longrightarrow> Replace s NL [CR, NL] ! i = NL \<Longrightarrow>
   0 < i \<and> Replace s NL [CR, NL] ! (i - 1) = CR"
proof (induction s arbitrary: i)
  case Nil
  then show ?case by simp
next
  case (Cons c cs)
  show ?case
  proof (cases "c = NL")
    case True
    with Cons.prems show ?thesis
      using Cons.IH [of "i - 2"]
      by (cases i; cases "i - 1") (auto simp: nth_Cons')
  next
    case False
    with Cons.prems show ?thesis
      using Cons.IH [of "i - 1"]
      by (cases i) (auto simp: nth_Cons')
  qed
qed

lemma writeStream_Some:
  assumes "dest p stream = Some wr" and "Write wr (Replace s NL [CR, NL]) = (wr', n, err)"
  shows "writeStream p stream s =
           Inr (if stream = syscall_Stderr then p\<lparr>stderr := Some wr'\<rparr> else p\<lparr>stdout := Some wr'\<rparr>,
                n, err)"
  using assms by (cases err) (simp_all add: writeStream_def dest_def)

lemma dest_after_write:
  "dest (if stream = syscall_Stderr then p\<lparr>stderr := Some wr'\<rparr> else p\<lparr>stdout := Some wr'\<rparr>) stream
     = Some wr'"
  by (simp add: dest_def)

lemma Write_written:
  "Write wr bs = (wr', n, err) \<Longrightarrow> written wr' = written wr @ take n bs"
  by (auto simp: Write_def split: option.splits if_splits)

lemma Write_ok:
  "Write wr bs = (wr', n, None) \<Longrightarrow> n = length bs"
  by (auto simp: Write_def split: option.splits if_splits)

lemma Write_unlimited:
  "room wr = None \<Longrightarrow> Write wr bs = (wr', n, err) \<Longrightarrow> err = None"
  by (auto simp: Write_def)

text \<open>
  C6. Let \<open>writeStream\<close> be called with the text \<open>s\<close> on a session whose destination stream
  is present. It hands the stream the text \<open>Replace s NL [CR, NL]\<close>: the stream receives
  the first \<open>n\<close> bytes of it, all of it when the write reports no error, which is so for a
  stream with unlimited room. The translated text is \<open>s\<close> with each newline replaced by
  the pair carriage return, newline: it has as many newlines as \<open>s\<close>, that many carriage
  returns more, is longer than \<open>s\<close> by that number, and each of its newlines directly follows
  a carriage return.
\<close>

theorem writeStream_translates_newlines:
  assumes "dest p stream = Some wr"
  shows "\<exists>p' wr' n err. writeStream p stream s = Inr (p', n, err) \<and>
           dest p' stream = Some wr' \<and>
           written wr' = written wr @ take n (Replace s NL [CR, NL]) \<and>
           (err = None \<longrightarrow> n = length (Replace s NL [CR, NL])) \<and>
           (room wr = None \<longrightarrow> err = None) \<and>
           Replace s NL [CR, NL] = concat (map (\<lambda>c. if c = NL then [CR, NL] else [c]) s) \<and>
           count_list (Replace s NL [CR, NL]) NL = count_list s NL \<and>
           count_list (Replace s NL [CR, NL]) CR = count_list s CR + count_list s NL \<and>
           length (Replace s NL [CR, NL]) = length s + count_list s NL \<and>
           (\<forall>i < length (Replace s NL [CR, NL]). Replace s NL [CR, NL] ! i = NL \<longrightarrow>
               0 < i \<and> Replace s NL [CR, NL] ! (i - 1) = CR)"
proof -
  let ?out = "Replace s NL [CR, NL]"
  obtain wr' n err where W: "Write wr ?out = (wr', n, err)"
    by (cases "Write wr ?out") auto
  let ?p' = "if stream = syscall_Stderr then p\<lparr>stderr := Some wr'\<rparr> else p\<lparr>stdout := Some wr'\<rparr>"
  have a: "writeStream p stream s = Inr (?p', n, err)"
    using assms W by (rule writeStream_Some)
  have b: "dest ?p' stream = Some wr'" by (rule dest_after_write)
  have c: "written wr' = written wr @ take n ?out"
    using W by (rule Write_written)
  have d: "err = None \<longrightarrow> n = length ?out"
    using W Write_ok by blast
  have e: "room wr = None \<longrightarrow> err = None"
    using W Write_unlimited by blast
  have f: "\<forall>i < length ?out. ?out ! i = NL \<longrightarrow> 0 < i \<and> ?out ! (i - 1) = CR"
    using NL_after_CR by blast
  have g: "count_list ?out NL = count_list s NL" by (rule count_Replace)
  have h: "length ?out = length s + count_list s NL" by (rule length_Replace)
  have i: "?out = concat (map (\<lambda>c. if c = NL then [CR, NL] else [c]) s)"
    by (rule Replace_concat)
  have j: "count_list ?out CR = count_list s CR + count_list s NL"
    by (rule count_CR_Replace)
  show ?thesis
    by (rule exI [of _ ?p'], rule exI [of _ wr'], rule exI [of _ n], rule exI [of _ err])
       (intro conjI a b c d e f g h i j)
qed

text \<open>The message \<open>a\<newline>b\<newline>c\<close> reaches the standard output as
  \<open>a\r\<newline>b\r\<newline>c\<close>, seven bytes with two newlines.\<close>

theorem writeStream_translates_newlines_witness:
  "dest pam_demo 1 = Some \<lparr>written = [], room = None\<rparr> \<and>
   writeStream pam_demo 1 [CHR ''a'', NL, CHR ''b'', NL, CHR ''c''] =
     Inr (pam_demo\<lparr>stdout := Some \<lparr>written = [CHR ''a'', CR, NL, CHR ''b'', CR, NL, CHR ''c''],
                                     room = None\<rparr>\<rparr>, 7, None) \<and>
   count_list (Replace [CHR ''a'', NL, CHR ''b'', NL, CHR ''c''] NL [CR, NL]) NL = 2"
  using writeStream_translates_newlines
    [of pam_demo 1 "\<lparr>written = [], room = None\<rparr>" "[CHR ''a'', NL, CHR ''b'', NL, CHR ''c'']"]
  by (simp add: dest_def syscall_Stderr_def pam_demo_def zero_PAM_def writeStream_def Write_def)

subsection \<open>The runs used as instances\<close>

lemmas eval_defs = Open_def Open_alloc_def Open_start_def Open_account_def Open_session_def
  codeToError_def CString_def malloc_def emit_def upd_def registerHandler_def
  make_pam_conv_def zero_PAM_def initial_world_def Close_def free_def unregisterHandler_def
  lib_demo_def cfg_demo_def trace_BadParameter_def Sprintf_def Let_def

lemma w_open_facts:
  "handlers w_open 1 = Some 0"
  "events w_open = [Malloc 0, Malloc 1, Malloc 2, Native pam_start 0, Native pam_acct_mgmt 0,
                    Native pam_open_session 0]"
  "nheap w_open 0 = Some (CStr ''sshd'')"
  "nheap w_open (Suc 0) = Some (CStr ''alice'')"
  "nheap w_open 2 = Some (PamConv 1)"
  "pamh (objs w_open 0) = Some 7"
  "conv (objs w_open 0) = Some 2"
  "service_name (objs w_open 0) = Some 0"
  "user (objs w_open 0) = Some 1"
  "handlerIndex (objs w_open 0) = 1"
  "snd (Open lib_demo initial_world (Some cfg_demo)) = (Some 0, None)"
  by (simp_all add: w_open_def eval_defs)

lemma w_open_streams:
  "dest (objs w_open 0) 1 = Some \<lparr>written = [], room = None\<rparr>"
  by (simp add: w_open_def eval_defs dest_def syscall_Stderr_def)

lemma w_closed_facts: "handlers w_closed 1 = None"
  by (simp add: w_closed_def w_open_def eval_defs)

lemma w_eof_facts:
  "handlers w_eof 1 = Some 0"
  "stdin (objs w_eof 0) = Some \<lparr>chunks = [''no newline''], fail_with = EOF\<rparr>"
  by (simp_all add: w_eof_def cfg_eof_def eval_defs)

lemma w_long_facts:
  "handlers w_long 1 = Some 0"
  "stdin (objs w_long 0) =
     Some \<lparr>chunks = [replicate 521 (CHR ''x'') @ [NL] @ ''more''], fail_with = EOF\<rparr>"
  "next_ptr w_long = 3"
  by (simp_all add: w_long_def cfg_long_def eval_defs)

subsection \<open>Failure of a native call\<close>

lemma pamh_Open_start:
  "pamh (objs (fst (Open_start lib w p cfg)) p) =
     snd (n_pam_start lib (ServiceName cfg) (Username cfg))"
  by (simp add: open_defs split_beta split: option.splits)

lemma pamh_Open:
  "pamh (objs (fst (Open lib w (Some cfg))) (next_ref w)) =
     snd (n_pam_start lib (ServiceName cfg) (Username cfg))"
  using pamh_Open_start [of lib "fst (Open_alloc w cfg)" "next_ref w" cfg]
  by (simp add: Open_def split_beta snd_Open_alloc)

lemma new_calls_Open:
  "pam_calls (drop (length (events w)) (events (fst (Open lib w (Some cfg))))) =
     pam_calls (Open_tail lib cfg)"
  by (simp add: events_Open pam_calls_append)

lemma Close_close_fails:
  "n_pam_close_session lib (pamh (objs w p)) = rv \<Longrightarrow> rv \<noteq> PAM_SUCCESS lib \<Longrightarrow>
   Close lib w p =
     (emit (emit (upd w p (\<lambda>x. x\<lparr>retval := rv\<rparr>)) (Native pam_close_session rv)) (StrError rv),
      map_option (trace_BadParameter lib) (n_pam_strerror lib (pamh (objs w p)) rv))"
  by (simp add: Close_def codeToError_def emit_def upd_def Let_def split: option.splits)

lemma Close_end_fails:
  "n_pam_close_session lib (pamh (objs w p)) = PAM_SUCCESS lib \<Longrightarrow>
   n_pam_end lib (pamh (objs w p)) (PAM_SUCCESS lib) = rv \<Longrightarrow> rv \<noteq> PAM_SUCCESS lib \<Longrightarrow>
   Close lib w p =
     (emit (emit (emit (upd w p (\<lambda>x. x\<lparr>retval := PAM_SUCCESS lib\<rparr>))
        (Native pam_close_session (PAM_SUCCESS lib))) (Native pam_end rv)) (StrError rv),
      map_option (trace_BadParameter lib) (n_pam_strerror lib (pamh (objs w p)) rv))"
  by (simp add: Close_def codeToError_def emit_def upd_def Let_def split: option.splits)

text \<open>When both calls succeed, \<open>Close\<close> frees the descriptor and the two strings once each
  and removes the handler.\<close>

lemma Close_ok:
  "n_pam_close_session lib (pamh (objs w p)) = PAM_SUCCESS lib \<Longrightarrow>
   n_pam_end lib (pamh (objs w p)) (PAM_SUCCESS lib) = PAM_SUCCESS lib \<Longrightarrow>
   snd (Close lib w p) = None \<and>
   events (fst (Close lib w p)) = events w @
      [Native pam_close_session (PAM_SUCCESS lib), Native pam_end (PAM_SUCCESS lib),
       Free (conv (objs w p)), Free (service_name (objs w p)), Free (user (objs w p))] \<and>
   handlers (fst (Close lib w p)) = (handlers w)(handlerIndex (objs w p) := None)"
  by (simp add: Close_def codeToError_def emit_def upd_def free_def unregisterHandler_def Let_def
      split: option.splits)

lemma Sprintf_plain:
  assumes "CHR ''%'' \<notin> set m"
  shows "Sprintf lib m = m"
proof -
  from assms have d: "dropWhile (\<lambda>c. c \<noteq> CHR ''%'') m = []"
    by (induction m) auto
  show ?thesis unfolding Sprintf_def d by simp
qed

lemma Open_part:
  assumes "Open lib w (Some cfg) = (w', r, e)"
    and "cs = pam_calls (drop (length (events w)) (events w'))"
  shows "cs \<noteq> [] \<and> list_all (\<lambda>c. snd c = PAM_SUCCESS lib) (butlast cs) \<and>
         (snd (last cs) \<noteq> PAM_SUCCESS lib \<longrightarrow> r = None \<and>
            (\<forall>m. n_pam_strerror lib (pamh (objs w' (next_ref w))) (snd (last cs)) = Some m \<longrightarrow>
                  e = Some (BadParameter (Sprintf lib m)) \<and>
                  (CHR ''%'' \<notin> set m \<longrightarrow> e = Some (BadParameter m))))"
proof -
  obtain r1 h where st: "n_pam_start lib (ServiceName cfg) (Username cfg) = (r1, h)"
    by (cases "n_pam_start lib (ServiceName cfg) (Username cfg)") auto
  have w': "w' = fst (Open lib w (Some cfg))" and re: "(r, e) = snd (Open lib w (Some cfg))"
    using assms(1) by simp_all
  have cs: "cs = pam_calls (Open_tail lib cfg)"
    using assms(2) new_calls_Open [of w lib cfg] w' by simp
  have h: "pamh (objs w' (next_ref w)) = h"
    using pamh_Open [of lib w cfg] st w' by simp
  show ?thesis
    using re
    by (simp add: cs h result_Open Open_tail_def st Let_def trace_BadParameter_def
        Sprintf_plain split: if_splits)
qed

lemma Close_part:
  assumes "Close lib w p = (w', e)"
    and "cs = pam_calls (drop (length (events w)) (events w'))"
  shows "\<forall>f rv m. (f, rv) \<in> set cs \<and> rv \<noteq> PAM_SUCCESS lib \<and>
                  n_pam_strerror lib (pamh (objs w p)) rv = Some m \<longrightarrow>
            e = Some (BadParameter (Sprintf lib m)) \<and>
            (CHR ''%'' \<notin> set m \<longrightarrow> e = Some (BadParameter m))"
proof (cases "n_pam_close_session lib (pamh (objs w p)) = PAM_SUCCESS lib")
  case False
  from Close_close_fails [OF refl False] assms show ?thesis
    by (auto simp: emit_def upd_def trace_BadParameter_def Sprintf_plain)
next
  case c: True
  show ?thesis
  proof (cases "n_pam_end lib (pamh (objs w p)) (PAM_SUCCESS lib) = PAM_SUCCESS lib")
    case False
    from Close_end_fails [OF c refl False] assms show ?thesis
      by (auto simp: emit_def upd_def trace_BadParameter_def Sprintf_plain)
  next
    case True
    from Close_ok [OF c True] assms show ?thesis
      by auto
  qed
qed

text \<open>
  C2, as amended. Let \<open>cs\<close> be the PAM calls that \<open>Open\<close> on a configuration adds to the
  record. Every call of \<open>cs\<close> but the last returned \<open>PAM_SUCCESS\<close>, so a status other than
  \<open>PAM_SUCCESS\<close> is the status of the last call: in \<open>Open\<close> no native call follows a
  failure. When the last status is a failure, \<open>Open\<close> returns no session, and whenever the
  status-to-text lookup yields a message \<open>m\<close> the error returned is the bad-parameter error
  whose text is \<open>m\<close> printed as a format without operands: \<open>m\<close> itself when it holds no
  \<open>%\<close>. Let \<open>ds\<close> be the PAM calls that \<open>Close\<close> adds. For every call of \<open>ds\<close> whose
  status is a failure and has a message \<open>m\<close>, the error \<open>Close\<close> returns is that same
  bad-parameter error. What \<open>Close\<close> does after a failed call is no part of the statement.
\<close>

theorem native_failure_is_returned:
  "(Open lib w (Some cfg) = (w', r, e) \<and>
    cs = pam_calls (drop (length (events w)) (events w')) \<longrightarrow>
      cs \<noteq> [] \<and> list_all (\<lambda>c. snd c = PAM_SUCCESS lib) (butlast cs) \<and>
      (snd (last cs) \<noteq> PAM_SUCCESS lib \<longrightarrow> r = None \<and>
         (\<forall>m. n_pam_strerror lib (pamh (objs w' (next_ref w))) (snd (last cs)) = Some m \<longrightarrow>
               e = Some (BadParameter (Sprintf lib m)) \<and>
               (CHR ''%'' \<notin> set m \<longrightarrow> e = Some (BadParameter m))))) \<and>
   (Close lib v p = (v', e') \<and>
    ds = pam_calls (drop (length (events v)) (events v')) \<longrightarrow>
      (\<forall>f rv m. (f, rv) \<in> set ds \<and> rv \<noteq> PAM_SUCCESS lib \<and>
                n_pam_strerror lib (pamh (objs v p)) rv = Some m \<longrightarrow>
          e' = Some (BadParameter (Sprintf lib m)) \<and>
          (CHR ''%'' \<notin> set m \<longrightarrow> e' = Some (BadParameter m))))"
  using Open_part [of lib w cfg w' r e cs] Close_part [of lib v p v' e' ds]
  by blast

text \<open>Account-management fails with status 13 in \<open>Open\<close>; close-session fails with status 14
  in \<open>Close\<close> on an open session. Both return the library's message, which holds no
  \<open>%\<close>.\<close>

theorem native_failure_is_returned_witness:
  "Open lib_acct_fails initial_world (Some cfg_demo) =
     (fst (Open lib_acct_fails initial_world (Some cfg_demo)), None,
      Some (BadParameter ''Cannot make/remove an entry for the specified session'')) \<and>
   pam_calls (drop (length (events initial_world))
       (events (fst (Open lib_acct_fails initial_world (Some cfg_demo))))) =
     [(pam_start, 0), (pam_acct_mgmt, 13)] \<and>
   n_pam_strerror lib_acct_fails
       (pamh (objs (fst (Open lib_acct_fails initial_world (Some cfg_demo)))
          (next_ref initial_world))) 13 =
     Some ''Cannot make/remove an entry for the specified session'' \<and>
   CHR ''%'' \<notin> set ''Cannot make/remove an entry for the specified session'' \<and>
   Close lib_close_fails w_open 0 =
     (fst (Close lib_close_fails w_open 0),
      Some (BadParameter ''Cannot make/remove an entry for the specified session'')) \<and>
   pam_calls (drop (length (events w_open)) (events (fst (Close lib_close_fails w_open 0)))) =
     [(pam_close_session, 14)]"
proof -
  let ?m = "''Cannot make/remove an entry for the specified session''"
  let ?W = "fst (Open lib_acct_fails initial_world (Some cfg_demo))"
  let ?V = "fst (Close lib_close_fails w_open 0)"
  have cs: "pam_calls (drop (length (events initial_world)) (events ?W)) =
              [(pam_start, 0), (pam_acct_mgmt, 13)]"
    by (simp add: lib_acct_fails_def eval_defs)
  have ds: "pam_calls (drop (length (events w_open)) (events ?V)) = [(pam_close_session, 14)]"
    by (simp add: w_open_facts lib_close_fails_def lib_demo_def Close_def codeToError_def
        emit_def upd_def)
  have m1: "n_pam_strerror lib_acct_fails (pamh (objs ?W (next_ref initial_world))) 13 = Some ?m"
    by (simp add: lib_acct_fails_def lib_demo_def)
  have m2: "n_pam_strerror lib_close_fails (pamh (objs w_open 0)) 14 = Some ?m"
    by (simp add: lib_close_fails_def lib_demo_def)
  have pc: "CHR ''%'' \<notin> set ?m" by simp
  have s1: "PAM_SUCCESS lib_acct_fails \<noteq> 13" and s2: "PAM_SUCCESS lib_close_fails \<noteq> 14"
    by (simp_all add: lib_acct_fails_def lib_close_fails_def lib_demo_def)
  have o: "Open lib_acct_fails initial_world (Some cfg_demo) =
             (?W, fst (snd (Open lib_acct_fails initial_world (Some cfg_demo))),
              snd (snd (Open lib_acct_fails initial_world (Some cfg_demo))))"
    by simp
  have c: "Close lib_close_fails w_open 0 = (?V, snd (Close lib_close_fails w_open 0))"
    by simp
  from native_failure_is_returned [of lib_acct_fails initial_world cfg_demo ?W
      "fst (snd (Open lib_acct_fails initial_world (Some cfg_demo)))"
      "snd (snd (Open lib_acct_fails initial_world (Some cfg_demo)))"
      "[(pam_start, 0), (pam_acct_mgmt, 13)]" w_open 0 w_open None "[]"] o cs m1 s1 pc
  have r1: "fst (snd (Open lib_acct_fails initial_world (Some cfg_demo))) = None"
    and e1: "snd (snd (Open lib_acct_fails initial_world (Some cfg_demo))) =
               Some (BadParameter ?m)"
    by (simp_all add: Sprintf_plain)
  from native_failure_is_returned [of lib_close_fails initial_world cfg_demo initial_world
      None None "[]" w_open 0 ?V "snd (Close lib_close_fails w_open 0)"
      "[(pam_close_session, 14)]"] c ds m2 s2 pc
  have e2: "snd (Close lib_close_fails w_open 0) = Some (BadParameter ?m)"
    by (simp add: Sprintf_plain)
  show ?thesis
    using cs ds m1 r1 e1 e2 by (simp add: prod_eq_iff)
qed

text \<open>The claim as stated fails in two ways. When the library has no text for the status
  (transaction-start returns 4, the lookup returns a null pointer), \<open>Open\<close> returns neither
  a session nor an error. When the text holds a \<open>%\<close>, the error does not carry the text:
  \<open>quota at 100%\<close> comes back as \<open>quota at 100%!(NOVERB)\<close>.\<close>

theorem Open_swallows_failure:
  "snd (Open lib_mute initial_world (Some cfg_demo)) = (None, None) \<and>
   pam_calls (events (fst (Open lib_mute initial_world (Some cfg_demo)))) = [(pam_start, 4)] \<and>
   PAM_SUCCESS lib_mute \<noteq> 4 \<and>
   n_pam_strerror lib_percent None 4 = Some ''quota at 100%'' \<and>
   snd (Open lib_percent initial_world (Some cfg_demo)) =
     (None, Some (BadParameter ''quota at 100%!(NOVERB)'')) \<and>
   BadParameter ''quota at 100%!(NOVERB)'' \<noteq> BadParameter ''quota at 100%''"
  by (simp add: lib_mute_def lib_percent_def eval_defs)

text \<open>
  C1. What the code does where the claim asks for a full teardown: when close-session
  returns a status other than \<open>PAM_SUCCESS\<close>, \<open>Close\<close> adds that call and no other PAM call
  to the record (transaction-end is not issued), frees nothing, leaves the native heap as
  it was (the descriptor and both strings stay allocated) and leaves the handler
  registered.
\<close>

theorem Close_failure_skips_teardown:
  assumes "n_pam_close_session lib (pamh (objs w p)) \<noteq> PAM_SUCCESS lib"
  shows "pam_calls (events (fst (Close lib w p))) =
           pam_calls (events w) @
             [(pam_close_session, n_pam_close_session lib (pamh (objs w p)))] \<and>
         frees (events (fst (Close lib w p))) = frees (events w) \<and>
         nheap (fst (Close lib w p)) = nheap w \<and>
         handlers (fst (Close lib w p)) = handlers w"
  using Close_close_fails [OF refl assms]
  by (simp add: emit_def upd_def pam_calls_append frees_append)

text \<open>An open session whose close-session call returns 14: no transaction-end, no
  \<open>free\<close>, the three blocks still allocated, the handler still registered.\<close>

theorem Close_failure_skips_teardown_witness:
  "n_pam_close_session lib_close_fails (pamh (objs w_open 0)) = 14 \<and>
   PAM_SUCCESS lib_close_fails = 0 \<and>
   snd (Close lib_close_fails w_open 0) =
     Some (BadParameter ''Cannot make/remove an entry for the specified session'') \<and>
   pam_calls (events (fst (Close lib_close_fails w_open 0))) =
     [(pam_start, 0), (pam_acct_mgmt, 0), (pam_open_session, 0), (pam_close_session, 14)] \<and>
   frees (events (fst (Close lib_close_fails w_open 0))) = [] \<and>
   nheap (fst (Close lib_close_fails w_open 0)) 0 = Some (CStr ''sshd'') \<and>
   nheap (fst (Close lib_close_fails w_open 0)) 1 = Some (CStr ''alice'') \<and>
   nheap (fst (Close lib_close_fails w_open 0)) 2 = Some (PamConv 1) \<and>
   handlers (fst (Close lib_close_fails w_open 0)) 1 = Some 0"
  using Close_failure_skips_teardown [of lib_close_fails w_open 0]
  by (simp add: w_open_facts lib_close_fails_def lib_demo_def Close_def codeToError_def
      emit_def upd_def trace_BadParameter_def Sprintf_def)

subsection \<open>The conversation callbacks\<close>

lemma takeWhile_skip:
  "d \<notin> set xs \<Longrightarrow> takeWhile (\<lambda>c. c \<noteq> d) (xs @ ys) = xs @ takeWhile (\<lambda>c. c \<noteq> d) ys"
  by (induction xs) auto

lemma split_chunk:
  assumes "chunks rd = c # cs"
  shows "(buf @ take k c) @ pending (rd\<lparr>chunks := drop k c # cs\<rparr>) = buf @ pending rd"
proof -
  have "(buf @ take k c) @ (drop k c @ concat cs) = buf @ ((take k c @ drop k c) @ concat cs)"
    by (simp only: append_assoc)
  then show ?thesis using assms by (simp add: pending_def)
qed

text \<open>Whatever the chunks are, the loop returns the first line of the bytes the stream
  delivers.\<close>

lemma loop_line:
  "delim \<in> set (buf @ pending rd) \<Longrightarrow>
   fst (ReadString_loop rd delim acc buf) =
     acc @ takeWhile (\<lambda>c. c \<noteq> delim) (buf @ pending rd) @ [delim] \<and>
   fst (snd (ReadString_loop rd delim acc buf)) = None"
proof (induction rd delim acc buf rule: ReadString_loop.induct)
  case (1 rd delim acc buf)
  show ?case
  proof (cases "delim \<in> set buf")
    case True
    then show ?thesis
      by (subst (1 2) ReadString_loop.simps) (simp add: takeWhile_append1)
  next
    case nb: False
    show ?thesis
    proof (cases "defaultBufSize \<le> length buf")
      case True
      have "delim \<in> set ([] @ pending rd)" using "1.prems" nb by simp
      from "1.IH"(1) [OF nb True this] nb True show ?thesis
        by (subst (1 2) ReadString_loop.simps) (simp add: takeWhile_skip)
    next
      case nf: False
      show ?thesis
      proof (cases "chunks rd")
        case Nil
        with "1.prems" nb show ?thesis by (simp add: pending_def)
      next
        case (Cons c cs)
        let ?k = "defaultBufSize - length buf"
        show ?thesis
        proof (cases "length c \<le> ?k")
          case True
          have p: "delim \<in> set ((buf @ c) @ pending (rd\<lparr>chunks := cs\<rparr>))"
            using "1.prems" Cons by (simp add: pending_def)
          from "1.IH"(2) [OF nb nf Cons refl True p] nb nf Cons True show ?thesis
            by (subst (1 2) ReadString_loop.simps) (simp add: pending_def)
        next
          case False
          have e: "(buf @ take ?k c) @ pending (rd\<lparr>chunks := drop ?k c # cs\<rparr>) = buf @ pending rd"
            using Cons by (rule split_chunk)
          have p: "delim \<in> set ((buf @ take ?k c) @ pending (rd\<lparr>chunks := drop ?k c # cs\<rparr>))"
            unfolding e using "1.prems" .
          from "1.IH"(3) [OF nb nf Cons refl False p] nb nf Cons False show ?thesis
            unfolding e
            by (subst (1 2) ReadString_loop.simps) (simp add: Let_def)
        qed
      qed
    qed
  qed
qed

text \<open>Without a delimiter the loop uses the stream up and returns its error.\<close>

lemma loop_fail:
  "delim \<notin> set (buf @ pending rd) \<Longrightarrow>
   ReadString_loop rd delim acc buf =
     (acc @ buf @ pending rd, Some (fail_with rd), rd\<lparr>chunks := []\<rparr>)"
proof (induction rd delim acc buf rule: ReadString_loop.induct)
  case (1 rd delim acc buf)
  from "1.prems" have nb: "delim \<notin> set buf" by simp
  show ?case
  proof (cases "defaultBufSize \<le> length buf")
    case True
    have "delim \<notin> set ([] @ pending rd)" using "1.prems" by simp
    from "1.IH"(1) [OF nb True this] nb True show ?thesis
      by (subst ReadString_loop.simps) simp
  next
    case nf: False
    show ?thesis
    proof (cases "chunks rd")
      case Nil
      with nb nf show ?thesis
        by (subst ReadString_loop.simps) (simp add: pending_def)
    next
      case (Cons c cs)
      let ?k = "defaultBufSize - length buf"
      show ?thesis
      proof (cases "length c \<le> ?k")
        case True
        have p: "delim \<notin> set ((buf @ c) @ pending (rd\<lparr>chunks := cs\<rparr>))"
          using "1.prems" Cons by (simp add: pending_def)
        from "1.IH"(2) [OF nb nf Cons refl True p] nb nf Cons True show ?thesis
          by (subst ReadString_loop.simps) (simp add: pending_def)
      next
        case False
        have e: "(buf @ take ?k c) @ pending (rd\<lparr>chunks := drop ?k c # cs\<rparr>) = buf @ pending rd"
          using Cons by (rule split_chunk)
        have p: "delim \<notin> set ((buf @ take ?k c) @ pending (rd\<lparr>chunks := drop ?k c # cs\<rparr>))"
          unfolding e using "1.prems" .
        from "1.IH"(3) [OF nb nf Cons refl False p] nb nf Cons False e show ?thesis
          by (subst ReadString_loop.simps) (simp add: Let_def)
      qed
    qed
  qed
qed

lemma ReadString_line:
  assumes "delim \<in> set (pending rd)"
  shows "\<exists>rd'. ReadString rd delim =
           (takeWhile (\<lambda>c. c \<noteq> delim) (pending rd) @ [delim], None, rd')"
proof -
  from assms have "delim \<in> set ([] @ pending rd)" by simp
  from loop_line [OF this, of "[]"] show ?thesis
    by (cases "ReadString_loop rd delim [] []") (simp add: ReadString_def)
qed

lemma ReadString_fail:
  "delim \<notin> set (pending rd) \<Longrightarrow>
   ReadString rd delim = (pending rd, Some (fail_with rd), rd\<lparr>chunks := []\<rparr>)"
  using loop_fail [of delim "[]" rd "[]"] by (simp add: ReadString_def)

lemma readStream_line:
  assumes "stdin p = Some rd" "NL \<in> set (pending rd)"
  shows "\<exists>rd'. readStream p echo =
           Inr (p\<lparr>stdin := Some rd'\<rparr>, takeWhile (\<lambda>c. c \<noteq> NL) (pending rd) @ [NL], None)"
proof -
  from ReadString_line [OF assms(2)] obtain rd' where
    "ReadString rd NL = (takeWhile (\<lambda>c. c \<noteq> NL) (pending rd) @ [NL], None, rd')"
    by blast
  with assms(1) have
    "readStream p echo =
       Inr (p\<lparr>stdin := Some rd'\<rparr>, takeWhile (\<lambda>c. c \<noteq> NL) (pending rd) @ [NL], None)"
    by (simp add: readStream_def)
  then show ?thesis by blast
qed

lemma readStream_fail:
  assumes "stdin p = Some rd" "NL \<notin> set (pending rd)"
  shows "readStream p echo =
           Inr (p\<lparr>stdin := Some (rd\<lparr>chunks := []\<rparr>)\<rparr>, [], Some (Wrap (fail_with rd)))"
  using assms by (simp add: readStream_def ReadString_fail)

text \<open>
  C4. When the index a callback presents has no handler, \<open>writeCallback\<close> returns with
  one error line added at the end of the log and nothing else changed, and \<open>readCallback\<close>
  does the same and returns a null pointer. This is so in particular right after the index
  has been unregistered. When the handler is there and reading the line fails (the stream
  ends or fails before a newline), \<open>readCallback\<close> has used the stream up, adds the error
  to the log and returns a null pointer.
\<close>

theorem callbacks_without_handler:
  "(handlers w (scast index) = None \<longrightarrow>
      writeCallback lib w index stream s =
        Inr (w\<lparr>events := events w @ [LogError (NoWriteHandler (scast index))]\<rparr>) \<and>
      readCallback lib w index e =
        Inr (w\<lparr>events := events w @ [LogError (NoReadHandler (scast index))]\<rparr>, None)) \<and>
   writeCallback lib (unregisterHandler w (scast index)) index stream s =
     Inr (w\<lparr>handlers := (handlers w)(scast index := None),
            events := events w @ [LogError (NoWriteHandler (scast index))]\<rparr>) \<and>
   readCallback lib (unregisterHandler w (scast index)) index e =
     Inr (w\<lparr>handlers := (handlers w)(scast index := None),
            events := events w @ [LogError (NoReadHandler (scast index))]\<rparr>, None) \<and>
   (handlers w (scast index) = Some h \<and> stdin (objs w h) = Some rd \<and>
    NL \<notin> set (pending rd) \<longrightarrow>
      readCallback lib w index e =
        Inr (w\<lparr>objs := (objs w)(h := (objs w h)\<lparr>stdin := Some (rd\<lparr>chunks := []\<rparr>)\<rparr>),
               events := events w @ [LogError (ReadFailed (Wrap (fail_with rd)))]\<rparr>, None))"
  by (simp add: writeCallback_def readCallback_def unregisterHandler_def readStream_fail
      emit_def)

text \<open>Index 5 was never registered; index 1 was registered and removed by \<open>Close\<close>; the
  session under index 1 of \<open>w_eof\<close> has an input that ends without a newline.\<close>

theorem callbacks_without_handler_witness:
  "handlers initial_world (scast (5 :: c_int)) = None \<and>
   writeCallback lib_demo initial_world 5 1 ''hello'' =
     Inr (initial_world\<lparr>events := events initial_world @ [LogError (NoWriteHandler 5)]\<rparr>) \<and>
   readCallback lib_demo initial_world 5 1 =
     Inr (initial_world\<lparr>events := events initial_world @ [LogError (NoReadHandler 5)]\<rparr>,
          None) \<and>
   handlers w_closed (scast (1 :: c_int)) = None \<and>
   writeCallback lib_demo w_closed 1 1 ''hello'' =
     Inr (w_closed\<lparr>events := events w_closed @ [LogError (NoWriteHandler 1)]\<rparr>) \<and>
   handlers w_eof (scast (1 :: c_int)) = Some 0 \<and>
   stdin (objs w_eof 0) = Some \<lparr>chunks = [''no newline''], fail_with = EOF\<rparr> \<and>
   NL \<notin> set (pending \<lparr>chunks = [''no newline''], fail_with = EOF\<rparr>) \<and>
   readCallback lib_demo w_eof 1 1 =
     Inr (w_eof\<lparr>objs := (objs w_eof)(0 := (objs w_eof 0)
                     \<lparr>stdin := Some \<lparr>chunks = [], fail_with = EOF\<rparr>\<rparr>),
                events := events w_eof @ [LogError (ReadFailed (Wrap EOF))]\<rparr>, None)"
proof -
  let ?rd = "\<lparr>chunks = [''no newline''], fail_with = EOF\<rparr>"
  have a: "handlers initial_world (scast (5 :: c_int)) = None"
    by (simp add: initial_world_def)
  have b: "handlers w_closed (scast (1 :: c_int)) = None"
    by (simp add: w_closed_facts)
  have c: "handlers w_eof (scast (1 :: c_int)) = Some 0"
    by (simp add: w_eof_facts)
  have d: "NL \<notin> set (pending ?rd)" by (simp add: pending_def)
  note e = w_eof_facts(2)
  from callbacks_without_handler [of initial_world 5 lib_demo 1 "''hello''" 1 0 ?rd] a
  have f: "writeCallback lib_demo initial_world 5 1 ''hello'' =
             Inr (initial_world\<lparr>events := events initial_world @ [LogError (NoWriteHandler 5)]\<rparr>)"
    "readCallback lib_demo initial_world 5 1 =
       Inr (initial_world\<lparr>events := events initial_world @ [LogError (NoReadHandler 5)]\<rparr>,
            None)"
    by simp_all
  from callbacks_without_handler [of w_closed 1 lib_demo 1 "''hello''" 1 0 ?rd] b
  have g: "writeCallback lib_demo w_closed 1 1 ''hello'' =
             Inr (w_closed\<lparr>events := events w_closed @ [LogError (NoWriteHandler 1)]\<rparr>)"
    by simp
  from callbacks_without_handler [of w_eof 1 lib_demo 1 "''hello''" 1 0 ?rd] c d e
  have h: "readCallback lib_demo w_eof 1 1 =
     Inr (w_eof\<lparr>objs := (objs w_eof)(0 := (objs w_eof 0)
                     \<lparr>stdin := Some \<lparr>chunks = [], fail_with = EOF\<rparr>\<rparr>),
                events := events w_eof @ [LogError (ReadFailed (Wrap EOF))]\<rparr>, None)"
    by simp
  show ?thesis
    by (intro conjI a b c d e f g h)
qed

lemma capped:
  "GoStringN s (strnlen s m) = take m (takeWhile (\<lambda>c. c \<noteq> NUL) s)"
proof -
  let ?t = "takeWhile (\<lambda>c. c \<noteq> NUL) s"
  have "take (min m (length ?t)) s = take (min m (length ?t)) (?t @ dropWhile (\<lambda>c. c \<noteq> NUL) s)"
    by simp
  also have "\<dots> = take m ?t"
    by (simp only: take_append) (simp add: min_def)
  finally show ?thesis by (simp add: GoStringN_def strnlen_def)
qed

lemma writeCallback_Some:
  assumes "handlers w (scast index) = Some h"
    and "writeStream (objs w h) (scast stream) (GoStringN s (strnlen s (PAM_MAX_MSG_SIZE lib))) =
           Inr (p', n, err)"
  shows "writeCallback lib w index stream s = Inr (w\<lparr>objs := (objs w)(h := p')\<rparr>)"
  using assms by (simp add: writeCallback_def)

text \<open>
  C7. Let the handler be registered and its destination stream present, and let the message
  (the bytes before the first NUL) be longer than \<open>PAM_MAX_MSG_SIZE\<close>. The text \<open>str\<close> that
  \<open>writeCallback\<close> builds has exactly \<open>PAM_MAX_MSG_SIZE\<close> bytes, the first ones of the
  message. The callback returns normally, logs nothing, and the stream receives the
  newline translation of \<open>str\<close>: the cut comes before everything else.
\<close>

theorem writeCallback_truncates:
  assumes "handlers w (scast index) = Some h"
    and "dest (objs w h) (scast stream) = Some wr"
    and "PAM_MAX_MSG_SIZE lib < length (takeWhile (\<lambda>c. c \<noteq> NUL) s)"
    and "str = GoStringN s (strnlen s (PAM_MAX_MSG_SIZE lib))"
  shows "length str = PAM_MAX_MSG_SIZE lib \<and>
         str = take (PAM_MAX_MSG_SIZE lib) s \<and>
         (\<exists>w' wr' n. writeCallback lib w index stream s = Inr w' \<and>
             events w' = events w \<and> handlers w' = handlers w \<and>
             dest (objs w' h) (scast stream) = Some wr' \<and>
             written wr' = written wr @ take n (Replace str NL [CR, NL]) \<and>
             (room wr = None \<longrightarrow> n = length (Replace str NL [CR, NL])))"
proof -
  let ?t = "takeWhile (\<lambda>c. c \<noteq> NUL) s"
  have str: "str = take (PAM_MAX_MSG_SIZE lib) ?t"
    using assms(4) by (simp add: capped)
  have len: "length str = PAM_MAX_MSG_SIZE lib"
    using assms(3) by (simp add: str)
  have "take (PAM_MAX_MSG_SIZE lib) ?t =
        take (PAM_MAX_MSG_SIZE lib) (?t @ dropWhile (\<lambda>c. c \<noteq> NUL) s)"
    using assms(3) by (simp only: take_append) simp
  then have pre: "str = take (PAM_MAX_MSG_SIZE lib) s"
    by (simp add: str)
  obtain wr' n err where W: "Write wr (Replace str NL [CR, NL]) = (wr', n, err)"
    by (cases "Write wr (Replace str NL [CR, NL])") auto
  let ?p' = "if scast stream = syscall_Stderr then (objs w h)\<lparr>stderr := Some wr'\<rparr>
             else (objs w h)\<lparr>stdout := Some wr'\<rparr>"
  let ?w' = "w\<lparr>objs := (objs w)(h := ?p')\<rparr>"
  have ws: "writeStream (objs w h) (scast stream) str = Inr (?p', n, err)"
    using assms(2) W by (rule writeStream_Some)
  have a: "writeCallback lib w index stream s = Inr ?w'"
    using assms(1) ws [unfolded assms(4)] by (rule writeCallback_Some)
  have b: "events ?w' = events w" "handlers ?w' = handlers w" by simp_all
  have c: "dest (objs ?w' h) (scast stream) = Some wr'"
    using dest_after_write [where stream = "scast stream" and p = "objs w h" and wr' = wr']
    by simp
  have d: "written wr' = written wr @ take n (Replace str NL [CR, NL])"
    using W by (rule Write_written)
  have e: "room wr = None \<longrightarrow> n = length (Replace str NL [CR, NL])"
    using W Write_unlimited Write_ok by blast
  have "\<exists>w' wr' n. writeCallback lib w index stream s = Inr w' \<and>
             events w' = events w \<and> handlers w' = handlers w \<and>
             dest (objs w' h) (scast stream) = Some wr' \<and>
             written wr' = written wr @ take n (Replace str NL [CR, NL]) \<and>
             (room wr = None \<longrightarrow> n = length (Replace str NL [CR, NL]))"
    by (rule exI [of _ ?w'], rule exI [of _ wr'], rule exI [of _ n])
       (intro conjI a b c d e)
  with len pre show ?thesis by simp
qed

text \<open>A message of 562 bytes, 50 more than the maximum of 512, reaches the standard output
  as its first 512 bytes.\<close>

theorem writeCallback_truncates_witness:
  "handlers w_open (scast (1 :: c_int)) = Some 0 \<and>
   dest (objs w_open 0) (scast (1 :: c_int)) = Some \<lparr>written = [], room = None\<rparr> \<and>
   PAM_MAX_MSG_SIZE lib_demo < length (takeWhile (\<lambda>c. c \<noteq> NUL) (replicate 562 (CHR ''x''))) \<and>
   length (GoStringN (replicate 562 (CHR ''x'')) (strnlen (replicate 562 (CHR ''x'')) 512)) = 512 \<and>
   (\<exists>w' wr'. writeCallback lib_demo w_open 1 1 (replicate 562 (CHR ''x'')) = Inr w' \<and>
       dest (objs w' 0) 1 = Some wr' \<and> written wr' = replicate 512 (CHR ''x''))"
proof -
  let ?s = "replicate 562 (CHR ''x'')"
  let ?str = "GoStringN ?s (strnlen ?s (PAM_MAX_MSG_SIZE lib_demo))"
  have m: "PAM_MAX_MSG_SIZE lib_demo = 512" by (simp add: lib_demo_def)
  have a: "handlers w_open (scast (1 :: c_int)) = Some 0"
    by (simp add: w_open_facts)
  have b: "dest (objs w_open 0) (scast (1 :: c_int)) = Some \<lparr>written = [], room = None\<rparr>"
    by (simp add: w_open_streams)
  have c: "PAM_MAX_MSG_SIZE lib_demo < length (takeWhile (\<lambda>c. c \<noteq> NUL) ?s)"
    by (simp add: m)
  have str: "?str = replicate 512 (CHR ''x'')"
    by (simp add: m GoStringN_def strnlen_def)
  have rep: "Replace ?str NL [CR, NL] = replicate 512 (CHR ''x'')"
    by (simp add: str Replace_no_NL)
  from writeCallback_truncates [OF a b c refl]
  obtain w' wr' n where
    "writeCallback lib_demo w_open 1 1 ?s = Inr w'"
    "dest (objs w' 0) (scast (1 :: c_int)) = Some wr'"
    "written wr' = [] @ take n (Replace ?str NL [CR, NL])"
    "n = length (Replace ?str NL [CR, NL])"
    by auto
  then have "writeCallback lib_demo w_open 1 1 ?s = Inr w' \<and>
       dest (objs w' 0) 1 = Some wr' \<and> written wr' = replicate 512 (CHR ''x'')"
    by (simp add: rep)
  then have "\<exists>w' wr'. writeCallback lib_demo w_open 1 1 ?s = Inr w' \<and>
       dest (objs w' 0) 1 = Some wr' \<and> written wr' = replicate 512 (CHR ''x'')"
    by blast
  moreover have "length (GoStringN ?s (strnlen ?s 512)) = 512"
    using str by (simp add: m)
  ultimately show ?thesis
    using a b c by blast
qed

lemma readCallback_Some:
  assumes "handlers w (scast index) = Some h"
    and "readStream (objs w h) (e = 1) = Inr (p', line, None)"
    and "0 < PAM_MAX_RESP_SIZE lib"
  shows "readCallback lib w index e =
           Inr (fst (CString (w\<lparr>objs := (objs w)(h := p')\<rparr>)
                  (take (nat (PAM_MAX_RESP_SIZE lib - 1)) line)),
                Some (next_ptr w))"
proof (cases "int (length line) > PAM_MAX_RESP_SIZE lib - 1")
  case True
  with assms show ?thesis
    by (simp add: readCallback_def CString_def malloc_def Let_def)
next
  case False
  then have "take (nat (PAM_MAX_RESP_SIZE lib - 1)) line = line" by simp
  with False assms show ?thesis
    by (simp add: readCallback_def CString_def malloc_def Let_def)
qed

text \<open>
  C8. Let the handler be registered, its input deliver a line (the bytes up to and including
  the first newline), and \<open>PAM_MAX_RESP_SIZE\<close> be positive. \<open>readCallback\<close> returns a fresh
  native string holding the first \<open>PAM_MAX_RESP_SIZE - 1\<close> bytes of the line and logs
  nothing. The answer and its terminator fit in \<open>PAM_MAX_RESP_SIZE\<close> bytes. A line longer
  than \<open>PAM_MAX_RESP_SIZE - 1\<close> comes back with exactly that many bytes, a line of at most
  that length comes back as it is.
\<close>

theorem readCallback_truncates:
  assumes "handlers w (scast index) = Some h"
    and "stdin (objs w h) = Some rd"
    and "NL \<in> set (pending rd)"
    and "0 < PAM_MAX_RESP_SIZE lib"
    and "line = takeWhile (\<lambda>c. c \<noteq> NL) (pending rd) @ [NL]"
  shows "\<exists>w' q ans. readCallback lib w index e = Inr (w', Some q) \<and>
           nheap w' q = Some (CStr ans) \<and>
           events w' = events w @ [Malloc q] \<and>
           ans = take (nat (PAM_MAX_RESP_SIZE lib - 1)) line \<and>
           int (length ans) + 1 \<le> PAM_MAX_RESP_SIZE lib \<and>
           (PAM_MAX_RESP_SIZE lib - 1 < int (length line) \<longrightarrow>
              int (length ans) = PAM_MAX_RESP_SIZE lib - 1) \<and>
           (int (length line) \<le> PAM_MAX_RESP_SIZE lib - 1 \<longrightarrow> ans = line)"
proof -
  let ?ans = "take (nat (PAM_MAX_RESP_SIZE lib - 1)) line"
  from readStream_line [OF assms(2,3), of "e = 1"] obtain rd' where
    rs: "readStream (objs w h) (e = 1) = Inr ((objs w h)\<lparr>stdin := Some rd'\<rparr>, line, None)"
    unfolding assms(5) by blast
  let ?w' = "fst (CString (w\<lparr>objs := (objs w)(h := (objs w h)\<lparr>stdin := Some rd'\<rparr>)\<rparr>) ?ans)"
  have a: "readCallback lib w index e = Inr (?w', Some (next_ptr w))"
    using assms(1) rs assms(4) by (rule readCallback_Some)
  have b: "nheap ?w' (next_ptr w) = Some (CStr ?ans)"
    by (simp add: CString_def malloc_def emit_def Let_def)
  have c: "events ?w' = events w @ [Malloc (next_ptr w)]"
    by (simp add: CString_def malloc_def emit_def Let_def)
  have d: "PAM_MAX_RESP_SIZE lib - 1 < int (length line) \<longrightarrow>
              int (length ?ans) = PAM_MAX_RESP_SIZE lib - 1"
    using assms(4) by auto
  have e: "int (length line) \<le> PAM_MAX_RESP_SIZE lib - 1 \<longrightarrow> ?ans = line"
    by auto
  have f: "int (length ?ans) + 1 \<le> PAM_MAX_RESP_SIZE lib"
    using assms(4) by auto
  show ?thesis
    by (rule exI [of _ ?w'], rule exI [of _ "next_ptr w"], rule exI [of _ ?ans])
       (intro conjI a b c d e f refl)
qed

text \<open>A line of 522 bytes, 10 more than the maximum of 512, comes back as its first 511
  bytes.\<close>

theorem readCallback_truncates_witness:
  "handlers w_long (scast (1 :: c_int)) = Some 0 \<and>
   stdin (objs w_long 0) =
     Some \<lparr>chunks = [replicate 521 (CHR ''x'') @ [NL] @ ''more''], fail_with = EOF\<rparr> \<and>
   0 < PAM_MAX_RESP_SIZE lib_demo \<and>
   length (replicate 521 (CHR ''x'') @ [NL]) = 522 \<and>
   (\<exists>w' q. readCallback lib_demo w_long 1 1 = Inr (w', Some q) \<and>
       nheap w' q = Some (CStr (replicate 511 (CHR ''x''))))"
proof -
  let ?rd = "\<lparr>chunks = [replicate 521 (CHR ''x'') @ [NL] @ ''more''], fail_with = EOF\<rparr>"
  let ?line = "replicate 521 (CHR ''x'') @ [NL]"
  have a: "handlers w_long (scast (1 :: c_int)) = Some 0"
    by (simp add: w_long_facts)
  note b = w_long_facts(2)
  have c: "NL \<in> set (pending ?rd)" by (simp add: pending_def)
  have d: "0 < PAM_MAX_RESP_SIZE lib_demo" by (simp add: lib_demo_def)
  have "takeWhile (\<lambda>c. c \<noteq> NL) (replicate 521 (CHR ''x'') @ ([NL] @ ''more'')) =
          replicate 521 (CHR ''x'') @ takeWhile (\<lambda>c. c \<noteq> NL) ([NL] @ ''more'')"
    by (rule takeWhile_append2) simp
  then have e: "?line = takeWhile (\<lambda>c. c \<noteq> NL) (pending ?rd) @ [NL]"
    by (simp add: pending_def)
  have t: "take (nat (PAM_MAX_RESP_SIZE lib_demo - 1)) ?line = replicate 511 (CHR ''x'')"
    by (simp add: lib_demo_def)
  from readCallback_truncates [OF a b c d e, of 1]
  obtain w' q where "readCallback lib_demo w_long 1 1 = Inr (w', Some q)"
    "nheap w' q = Some (CStr (take (nat (PAM_MAX_RESP_SIZE lib_demo - 1)) ?line))"
    by blast
  then have "\<exists>w' q. readCallback lib_demo w_long 1 1 = Inr (w', Some q) \<and>
       nheap w' q = Some (CStr (replicate 511 (CHR ''x'')))"
    unfolding t by blast
  then show ?thesis
    using a b d by simp
qed

end
